theory Spec2Isabelle
  imports Main "HOL-Library.Sublist" "HOL-Library.Multiset"
begin

section \<open>JavaScript string primitives used by \<open>js/logic.js\<close>\<close>

text \<open>
  A string is the list of its code units. The model covers code units up to U+00FF, one
  \<open>char\<close> each. Numbers are integers (\<open>int\<close>): credit values and years are exact
  as long as they stay below \<open>2^53\<close> in magnitude, where a JavaScript Number is an exact
  integer; \<open>NaN\<close> is the value \<open>None\<close> of \<open>int option\<close>.
\<close>

text \<open>White space of \<open>String.prototype.trim\<close>, of \<open>parseInt\<close> and of the regular
  expression class \<open>\s\<close>, in the range of the model.\<close>

definition js_whitespace :: "char \<Rightarrow> bool" where
  "js_whitespace c =
     (c \<in> set [CHR 0x09, CHR 0x0A, CHR 0x0B, CHR 0x0C, CHR 0x0D, CHR 0x20, CHR 0xA0])"

definition js_trim :: "string \<Rightarrow> string" where
  "js_trim s = rev (dropWhile js_whitespace (rev (dropWhile js_whitespace s)))"

text \<open>\<open>s.split(sep)\<close> for a one-character separator: never empty, \<open>"".split("|")\<close> is
  \<open>[""]\<close>.\<close>

fun js_split :: "char \<Rightarrow> string \<Rightarrow> string list" where
  "js_split sep [] = [[]]"
| "js_split sep (c # cs) =
     (if c = sep then [] # js_split sep cs
      else (case js_split sep cs of p # ps \<Rightarrow> (c # p) # ps | [] \<Rightarrow> [[c]]))"

definition upper_lower_table :: "(char \<times> char) list" where
  "upper_lower_table =
     zip ''ABCDEFGHIJKLMNOPQRSTUVWXYZ'' ''abcdefghijklmnopqrstuvwxyz'' @
     zip [CHR 0xC0, CHR 0xC1, CHR 0xC2, CHR 0xC3, CHR 0xC4, CHR 0xC5, CHR 0xC6, CHR 0xC7,
          CHR 0xC8, CHR 0xC9, CHR 0xCA, CHR 0xCB, CHR 0xCC, CHR 0xCD, CHR 0xCE, CHR 0xCF,
          CHR 0xD0, CHR 0xD1, CHR 0xD2, CHR 0xD3, CHR 0xD4, CHR 0xD5, CHR 0xD6,
          CHR 0xD8, CHR 0xD9, CHR 0xDA, CHR 0xDB, CHR 0xDC, CHR 0xDD, CHR 0xDE]
         [CHR 0xE0, CHR 0xE1, CHR 0xE2, CHR 0xE3, CHR 0xE4, CHR 0xE5, CHR 0xE6, CHR 0xE7,
          CHR 0xE8, CHR 0xE9, CHR 0xEA, CHR 0xEB, CHR 0xEC, CHR 0xED, CHR 0xEE, CHR 0xEF,
          CHR 0xF0, CHR 0xF1, CHR 0xF2, CHR 0xF3, CHR 0xF4, CHR 0xF5, CHR 0xF6,
          CHR 0xF8, CHR 0xF9, CHR 0xFA, CHR 0xFB, CHR 0xFC, CHR 0xFD, CHR 0xFE]"

definition js_lower_char :: "char \<Rightarrow> char" where
  "js_lower_char c = (case map_of upper_lower_table c of Some l \<Rightarrow> l | None \<Rightarrow> c)"

definition js_toLowerCase :: "string \<Rightarrow> string" where
  "js_toLowerCase s = map js_lower_char s"

text \<open>\<open>s.startsWith(p)\<close> and \<open>s.includes(p)\<close>, both case-sensitive.\<close>

definition js_startsWith :: "string \<Rightarrow> string \<Rightarrow> bool" where
  "js_startsWith s p = (take (length p) s = p)"

fun js_includes :: "string \<Rightarrow> string \<Rightarrow> bool" where
  "js_includes [] p = (p = [])"
| "js_includes (c # cs) p = (js_startsWith (c # cs) p \<or> js_includes cs p)"

text \<open>\<open>s.replace(pat, "")\<close> for a string pattern: the first occurrence is removed.\<close>

fun js_remove_first :: "string \<Rightarrow> string \<Rightarrow> string" where
  "js_remove_first [] pat = []"
| "js_remove_first (c # cs) pat =
     (if js_startsWith (c # cs) pat then drop (length pat) (c # cs)
      else c # js_remove_first cs pat)"

text \<open>\<open>parseInt(s)\<close> without a radix: leading white space, an optional sign, an
  optional \<open>0x\<close>/\<open>0X\<close> prefix that switches to radix 16, then the longest run of
  digits; \<open>NaN\<close> when that run is empty.\<close>

definition digit_table :: "(char \<times> nat) list" where
  "digit_table =
     zip ''0123456789abcdef'' [0, 1, 2, 3, 4, 5, 6, 7, 8, 9, 10, 11, 12, 13, 14, 15] @
     zip ''ABCDEF'' [10, 11, 12, 13, 14, 15]"

definition digit_val :: "nat \<Rightarrow> char \<Rightarrow> nat option" where
  "digit_val radix c =
     (case map_of digit_table c of
        Some d \<Rightarrow> if d < radix then Some d else None
      | None \<Rightarrow> None)"

fun digits_value :: "nat \<Rightarrow> nat \<Rightarrow> string \<Rightarrow> nat" where
  "digits_value radix acc [] = acc"
| "digits_value radix acc (c # cs) =
     digits_value radix (acc * radix + (case digit_val radix c of Some d \<Rightarrow> d | None \<Rightarrow> 0)) cs"

fun strip_sign :: "string \<Rightarrow> bool \<times> string" where
  "strip_sign [] = (False, [])"
| "strip_sign (c # cs) =
     (if c = CHR ''-'' then (True, cs)
      else if c = CHR ''+'' then (False, cs)
      else (False, c # cs))"

definition strip_hex :: "string \<Rightarrow> nat \<times> string" where
  "strip_hex s =
     (if js_startsWith s ''0x'' \<or> js_startsWith s ''0X'' then (16, drop 2 s) else (10, s))"

definition js_parseInt :: "string \<Rightarrow> int option" where
  "js_parseInt s =
     (case strip_sign (dropWhile js_whitespace s) of
        (neg, s2) \<Rightarrow>
          (case strip_hex s2 of
             (radix, s3) \<Rightarrow>
               (case takeWhile (\<lambda>c. digit_val radix c \<noteq> None) s3 of
                  [] \<Rightarrow> None
                | d # ds \<Rightarrow>
                    Some (if neg then - int (digits_value radix 0 (d # ds))
                          else int (digits_value radix 0 (d # ds))))))"

text \<open>\<open>x % 2\<close>: the remainder of JavaScript takes the sign of the dividend.\<close>

definition js_rem :: "int \<Rightarrow> int \<Rightarrow> int" where
  "js_rem x y = sgn x * (\<bar>x\<bar> mod \<bar>y\<bar>)"

section \<open>The data of the plan manager\<close>

text \<open>An exam of the catalogue, as \<open>processExamRow\<close> builds it; only the fields that
  \<open>PlanManager\<close> reads. A field the CSV row lacks is \<open>undefined\<close>: \<open>None\<close>.\<close>

record exam =
  exam_id :: string
  exam_name :: string
  exam_cfu :: int
  rawTable :: "string option"
  availability :: "string option"

text \<open>An entry of the plan. \<open>examId\<close> is \<open>null\<close> for custom and mandatory entries.\<close>

record item =
  item_id :: string
  examId :: "string option"
  name :: string
  cfu :: int
  table :: string
  isCustom :: bool

text \<open>The rules document (\<open>rules.json\<close>, \<open>degree_requirements\<close>), with every number
  present. A rule of a curriculum carries \<open>min_sumBC_credits\<close> when its source is \<open>BC\<close>
  and \<open>min_credits\<close> otherwise; the code reads only the field that belongs to the source.
  \<open>programs\<close> maps a curriculum to its \<open>curriculum_rules\<close>.\<close>

record mandatory_exam =
  mand_name :: string
  credits :: int

record rule =
  source :: string
  min_credits :: int
  min_sumBC_credits :: int

record common_rules =
  mandatory_exams :: "mandatory_exam list"
  free_exams_credits :: int
  total_credits :: int

record degree_requirements =
  common :: common_rules
  programs :: "string \<rightharpoonup> rule list"

text \<open>An argument of the translation function \<open>t(key, params)\<close>.\<close>

datatype jsval = JNum int | JStr string

record PlanManager =
  allExams :: "exam list"
  rules :: degree_requirements
  t :: "string \<Rightarrow> (string \<times> jsval) list \<Rightarrow> string"
  year :: string
  curriculum :: string
  plan :: "item list"

text \<open>Reading a property of \<open>undefined\<close> throws a \<open>TypeError\<close>; it is the only
  exception the class can raise. A call that throws has the result \<open>Inl TypeError\<close>; the
  manager that an uncaught exception leaves behind, where an interrupted pass has already
  given some entries a new table, is not part of the model. The objects \<open>limits\<close>,
  \<open>programs\<close> and \<open>report.tables\<close> are read by their own keys: a table or a rule source
  with the name of a property of \<open>Object.prototype\<close> is outside the model.\<close>

datatype error = TypeError

text \<open>The constructor; the translation function defaults to the identity on keys.\<close>

definition new_PlanManager ::
  "exam list \<Rightarrow> degree_requirements \<Rightarrow> (string \<Rightarrow> (string \<times> jsval) list \<Rightarrow> string) option
     \<Rightarrow> PlanManager" where
  "new_PlanManager exams rs tr =
     \<lparr> allExams = exams, rules = rs,
       t = (case tr of Some f \<Rightarrow> f | None \<Rightarrow> (\<lambda>k ps. k)),
       year = ''2025/2026'', curriculum = ''FBA'', plan = [] \<rparr>"

definition setYear :: "PlanManager \<Rightarrow> string \<Rightarrow> PlanManager" where
  "setYear m y = m\<lparr>year := y\<rparr>"

section \<open>Allowed tables and availability\<close>

definition priority :: "string \<Rightarrow> int" where
  "priority p = (if p = ''A'' then 1 else if p = ''B'' then 2 else 3)"

text \<open>\<open>getAllowedTables\<close>. \<open>Array.prototype.sort\<close> is stable; \<open>sort_key\<close> is the
  stable insertion sort.\<close>

definition getAllowedTables :: "PlanManager \<Rightarrow> exam \<Rightarrow> string list" where
  "getAllowedTables m e =
     (let raw = (case rawTable e of None \<Rightarrow> '''' | Some r \<Rightarrow> r);
          parts = map js_trim (js_split (CHR ''|'') raw)
      in if curriculum m = ''FBA''
         then filter (\<lambda>p. p \<in> set [''1'', ''2'']) parts
         else (let allowed = filter (\<lambda>p. p \<in> set [''A'', ''B'', ''C'']) parts
               in sort_key priority allowed))"

text \<open>The start component of a year token: \<open>parseInt(y.split("/")[0])\<close>.\<close>

definition year_start :: "string \<Rightarrow> int option" where
  "year_start y = js_parseInt (hd (js_split (CHR ''/'') y))"

text \<open>\<open>isExamAvailable\<close>. A comparison with \<open>NaN\<close> is false, and so is
  \<open>NaN % 2 === 0\<close>.\<close>

definition isEvenYear :: "PlanManager \<Rightarrow> bool" where
  "isEvenYear m = (case year_start (year m) of None \<Rightarrow> False | Some c \<Rightarrow> js_rem c 2 = 0)"

definition isExamAvailable :: "PlanManager \<Rightarrow> exam \<Rightarrow> bool" where
  "isExamAvailable m e =
     (case availability e of
        None \<Rightarrow> True
      | Some avail \<Rightarrow>
          if avail = '''' \<or> js_toLowerCase avail = ''enabled'' then True
          else if js_toLowerCase avail = ''disabled'' then False
          else if js_startsWith avail ''From ''
          then (let fromYear = js_trim (js_remove_first avail ''From '')
                in case (year_start (year m), year_start fromYear) of
                     (Some currentStart, Some fromStart) \<Rightarrow> currentStart \<ge> fromStart
                   | _ \<Rightarrow> False)
          else if js_includes avail ''Biennial'' \<and> js_includes avail ''Even''
          then isEvenYear m
          else if js_includes avail ''Biennial'' \<and> js_includes avail ''Odd''
          then \<not> isEvenYear m
          else True)"

text \<open>\<open>getNextAvailabilityInfo\<close>; \<open>null\<close> is \<open>None\<close>.\<close>

definition getNextAvailabilityInfo :: "PlanManager \<Rightarrow> exam \<Rightarrow> string option" where
  "getNextAvailabilityInfo m e =
     (case availability e of
        None \<Rightarrow> None
      | Some avail \<Rightarrow>
          if avail = '''' \<or> js_toLowerCase avail = ''enabled'' then None
          else if js_startsWith avail ''From ''
          then Some (t m ''available_from''
                       [(''date'', JStr (js_remove_first avail ''From ''))])
          else if js_includes avail ''Biennial'' \<and> js_includes avail ''Even'' \<and> \<not> isEvenYear m
          then Some (t m ''next_activation_even'' [])
          else if js_includes avail ''Biennial'' \<and> js_includes avail ''Odd'' \<and> isEvenYear m
          then Some (t m ''next_activation_odd'' [])
          else Some avail)"

section \<open>Bucket reassignment\<close>

text \<open>\<open>this.allExams.find((e) => e.id === item.examId)\<close>; no exam has the id
  \<open>null\<close>.\<close>

definition lookup_exam :: "PlanManager \<Rightarrow> string option \<Rightarrow> exam option" where
  "lookup_exam m eid =
     (case eid of None \<Rightarrow> None | Some i \<Rightarrow> find (\<lambda>e. exam_id e = i) (allExams m))"

text \<open>\<open>.reduce((s, p) => s + p.cfu, 0)\<close>.\<close>

definition sum_cfu :: "item list \<Rightarrow> int" where
  "sum_cfu ps = foldl (\<lambda>s p. s + cfu p) 0 ps"

text \<open>Step 1 of \<open>rebalanceBuckets\<close>: the object \<open>limits\<close> and \<open>minSumBC\<close>, read
  from the rules of the curriculum in one pass.\<close>

definition read_limits :: "rule list \<Rightarrow> (string \<rightharpoonup> int) \<times> int" where
  "read_limits progRules =
     foldl (\<lambda>acc r.
              if source r = ''BC'' then (fst acc, min_sumBC_credits r)
              else ((fst acc)(source r \<mapsto> min_credits r), snd acc))
           (Map.empty, 0) progRules"

text \<open>\<open>limits[t] || 0\<close>.\<close>

definition limit_of :: "(string \<rightharpoonup> int) \<Rightarrow> string \<Rightarrow> int" where
  "limit_of limits tb = (case limits tb of None \<Rightarrow> 0 | Some l \<Rightarrow> l)"

text \<open>Attempt 1, the loop \<open>for (const t of allowed)\<close>: the first table that is under
  its own minimum, or is B or C while the sum of B and C is under \<open>minSumBC\<close>.\<close>

fun attempt1 :: "(string \<rightharpoonup> int) \<Rightarrow> int \<Rightarrow> item list \<Rightarrow> string list \<Rightarrow> string option" where
  "attempt1 limits minSumBC newPlan [] = None"
| "attempt1 limits minSumBC newPlan (tb # tbs) =
     (if sum_cfu (filter (\<lambda>p. table p = tb) newPlan) < limit_of limits tb
         \<or> ((tb = ''B'' \<or> tb = ''C'')
             \<and> sum_cfu (filter (\<lambda>p. table p = ''B'' \<or> table p = ''C'') newPlan) < minSumBC)
      then Some tb
      else attempt1 limits minSumBC newPlan tbs)"

text \<open>Attempts 2 and 3: Facoltativi while it is under the free credits, else Fuori
  Piano.\<close>

definition assign_table ::
  "(string \<rightharpoonup> int) \<Rightarrow> int \<Rightarrow> int \<Rightarrow> item list \<Rightarrow> string list \<Rightarrow> string" where
  "assign_table limits minSumBC freeLimit newPlan allowed =
     (case attempt1 limits minSumBC newPlan allowed of
        Some tb \<Rightarrow> tb
      | None \<Rightarrow>
          if sum_cfu (filter (\<lambda>p. table p = ''Facoltativi'') newPlan) < freeLimit
          then ''Facoltativi'' else ''Fuori Piano'')"

text \<open>\<open>item.isCustom ? [] : this.getAllowedTables(exam)\<close>: for an entry of the catalogue
  whose exam is not found, \<open>getAllowedTables(undefined)\<close> throws.\<close>

definition allowed_of :: "PlanManager \<Rightarrow> item \<Rightarrow> error + string list" where
  "allowed_of m it =
     (if isCustom it then Inr []
      else (case lookup_exam m (examId it) of
              None \<Rightarrow> Inl TypeError
            | Some e \<Rightarrow> Inr (getAllowedTables m e)))"

fun rebalance_loop ::
  "PlanManager \<Rightarrow> (string \<rightharpoonup> int) \<Rightarrow> int \<Rightarrow> int \<Rightarrow> item list \<Rightarrow> item list
     \<Rightarrow> error + item list" where
  "rebalance_loop m limits minSumBC freeLimit newPlan [] = Inr newPlan"
| "rebalance_loop m limits minSumBC freeLimit newPlan (it # rest) =
     (case allowed_of m it of
        Inl e \<Rightarrow> Inl e
      | Inr allowed \<Rightarrow>
          rebalance_loop m limits minSumBC freeLimit
            (newPlan @ [it\<lparr>table := assign_table limits minSumBC freeLimit newPlan allowed\<rparr>])
            rest)"

text \<open>\<open>rebalanceBuckets\<close>. A curriculum without rules makes
  \<open>programs[this.curriculum].curriculum_rules\<close> throw.\<close>

definition rebalanceBuckets :: "PlanManager \<Rightarrow> error + PlanManager" where
  "rebalanceBuckets m =
     (case programs (rules m) (curriculum m) of
        None \<Rightarrow> Inl TypeError
      | Some progRules \<Rightarrow>
          (case rebalance_loop m (fst (read_limits progRules)) (snd (read_limits progRules))
                  (free_exams_credits (common (rules m)))
                  (filter (\<lambda>p. table p = ''Obbligatori'') (plan m))
                  (filter (\<lambda>p. table p \<noteq> ''Obbligatori'') (plan m)) of
             Inl e \<Rightarrow> Inl e
           | Inr newPlan \<Rightarrow> Inr (m\<lparr>plan := newPlan\<rparr>)))"

section \<open>The operations on the plan\<close>

text \<open>\<open>migratePlan\<close>: an entry of the catalogue whose exam is gone is dropped.\<close>

fun migrate_loop :: "PlanManager \<Rightarrow> item list \<Rightarrow> item list \<Rightarrow> item list" where
  "migrate_loop m newPlan [] = newPlan"
| "migrate_loop m newPlan (it # rest) =
     (if table it = ''Obbligatori'' then migrate_loop m (newPlan @ [it]) rest
      else if isCustom it then migrate_loop m (newPlan @ [it]) rest
      else (case lookup_exam m (examId it) of
              None \<Rightarrow> migrate_loop m newPlan rest
            | Some e \<Rightarrow>
                (case getAllowedTables m e of
                   [] \<Rightarrow> migrate_loop m (newPlan @ [it\<lparr>table := ''Facoltativi''\<rparr>]) rest
                 | a # as \<Rightarrow> migrate_loop m (newPlan @ [it\<lparr>table := a\<rparr>]) rest)))"

definition migratePlan :: "PlanManager \<Rightarrow> error + PlanManager" where
  "migratePlan m = rebalanceBuckets (m\<lparr>plan := migrate_loop m [] (plan m)\<rparr>)"

definition setCurriculum :: "PlanManager \<Rightarrow> string \<Rightarrow> error + PlanManager" where
  "setCurriculum m c = migratePlan (m\<lparr>curriculum := c\<rparr>)"

text \<open>\<open>addExam(exam, targetTable = null)\<close>; \<open>!table\<close> holds for \<open>null\<close> and for the
  empty string.\<close>

definition default_table :: "PlanManager \<Rightarrow> exam \<Rightarrow> string" where
  "default_table m e = (case getAllowedTables m e of [] \<Rightarrow> ''Facoltativi'' | a # as \<Rightarrow> a)"

definition new_item :: "PlanManager \<Rightarrow> exam \<Rightarrow> string option \<Rightarrow> item" where
  "new_item m e targetTable =
     \<lparr> item_id = exam_id e, examId = Some (exam_id e), name = exam_name e, cfu = exam_cfu e,
       table = (case targetTable of
                  None \<Rightarrow> default_table m e
                | Some tt \<Rightarrow> if tt = [] then default_table m e else tt),
       isCustom = False \<rparr>"

definition addExam :: "PlanManager \<Rightarrow> exam \<Rightarrow> string option \<Rightarrow> error + (bool \<times> PlanManager)" where
  "addExam m e targetTable =
     (if list_ex (\<lambda>p. examId p = Some (exam_id e)) (plan m) then Inr (False, m)
      else (case rebalanceBuckets (m\<lparr>plan := plan m @ [new_item m e targetTable]\<rparr>) of
              Inl err \<Rightarrow> Inl err
            | Inr m' \<Rightarrow> Inr (True, m')))"

text \<open>\<open>addCustomExam(name, cfu, table = "Facoltativi")\<close>. \<open>now\<close> is the decimal text of
  \<open>Date.now()\<close> and \<open>c\<close> the number \<open>parseInt(cfu)\<close>.\<close>

definition addCustomExam ::
  "PlanManager \<Rightarrow> string \<Rightarrow> string \<Rightarrow> int \<Rightarrow> string option \<Rightarrow> error + PlanManager" where
  "addCustomExam m now nm c tb =
     rebalanceBuckets
       (m\<lparr>plan := plan m @
            [\<lparr> item_id = ''custom-'' @ now, examId = None, name = nm, cfu = c,
               table = (case tb of None \<Rightarrow> ''Facoltativi'' | Some x \<Rightarrow> x),
               isCustom = True \<rparr>]\<rparr>)"

definition removeExam :: "PlanManager \<Rightarrow> string \<Rightarrow> error + PlanManager" where
  "removeExam m planItemId =
     (if (case find (\<lambda>p. item_id p = planItemId) (plan m) of
            None \<Rightarrow> False
          | Some it \<Rightarrow> table it = ''Obbligatori'')
      then Inr m
      else rebalanceBuckets (m\<lparr>plan := filter (\<lambda>p. item_id p \<noteq> planItemId) (plan m)\<rparr>))"

text \<open>\<open>item.table = newTable\<close> writes to the entry that \<open>find\<close> returned, the first one
  with the id.\<close>

fun set_table_first :: "string \<Rightarrow> string \<Rightarrow> item list \<Rightarrow> item list" where
  "set_table_first pid nt [] = []"
| "set_table_first pid nt (p # ps) =
     (if item_id p = pid then p\<lparr>table := nt\<rparr> # ps else p # set_table_first pid nt ps)"

definition rebalance_true :: "PlanManager \<Rightarrow> error + (bool \<times> PlanManager)" where
  "rebalance_true m =
     (case rebalanceBuckets m of Inl err \<Rightarrow> Inl err | Inr m' \<Rightarrow> Inr (True, m'))"

definition moveExam :: "PlanManager \<Rightarrow> string \<Rightarrow> string \<Rightarrow> error + (bool \<times> PlanManager)" where
  "moveExam m planItemId newTable =
     (case find (\<lambda>p. item_id p = planItemId) (plan m) of
        None \<Rightarrow> rebalance_true m
      | Some it \<Rightarrow>
          if \<not> isCustom it \<and> newTable \<noteq> ''Facoltativi'' \<and> newTable \<noteq> ''Obbligatori''
             \<and> newTable \<noteq> ''Fuori Piano''
          then (case lookup_exam m (examId it) of
                  None \<Rightarrow> Inl TypeError
                | Some e \<Rightarrow>
                    if newTable \<in> set (getAllowedTables m e)
                    then rebalance_true (m\<lparr>plan := set_table_first planItemId newTable (plan m)\<rparr>)
                    else Inr (False, m))
          else rebalance_true (m\<lparr>plan := set_table_first planItemId newTable (plan m)\<rparr>))"

text \<open>\<open>initDefaults\<close> and \<open>reset\<close>. \<open>replace(/\s+/g, "-")\<close> turns every run of white
  space into one hyphen; the flag says that the previous character was white space.\<close>

fun hyphenate :: "bool \<Rightarrow> string \<Rightarrow> string" where
  "hyphenate prev [] = []"
| "hyphenate prev (c # cs) =
     (if js_whitespace c then (if prev then hyphenate True cs else CHR ''-'' # hyphenate True cs)
      else c # hyphenate False cs)"

definition mandatory_item :: "mandatory_exam \<Rightarrow> item" where
  "mandatory_item ex =
     \<lparr> item_id = hyphenate False (js_toLowerCase (mand_name ex)), examId = None,
       name = mand_name ex, cfu = credits ex, table = ''Obbligatori'', isCustom = True \<rparr>"

definition initDefaults :: "PlanManager \<Rightarrow> error + PlanManager" where
  "initDefaults m =
     rebalanceBuckets
       (m\<lparr>plan := plan m @ map mandatory_item (mandatory_exams (common (rules m)))\<rparr>)"

definition reset :: "PlanManager \<Rightarrow> error + PlanManager" where
  "reset m = initDefaults (m\<lparr>plan := []\<rparr>)"

section \<open>Validation\<close>

text \<open>The report of \<open>validate\<close>. \<open>tables\<close> is the object \<open>report.tables\<close>, with its keys
  in the order of the schema.\<close>

record table_status =
  current :: int
  minimum :: int

record special_rule =
  label :: string
  sr_current :: int
  sr_min :: int

record report =
  totalCredits :: int
  tables :: "(string \<times> table_status) list"
  specialRules :: "special_rule list"
  isValid :: bool
  messages :: "string list"

definition schema :: "PlanManager \<Rightarrow> string list" where
  "schema m =
     (if curriculum m = ''FBA''
      then [''Obbligatori'', ''1'', ''2'', ''Facoltativi'', ''Fuori Piano'']
      else [''Obbligatori'', ''A'', ''B'', ''C'', ''Facoltativi'', ''Fuori Piano''])"

text \<open>A write to a field of \<open>report.tables[k]\<close>, for a key that is there.\<close>

definition upd_table ::
  "string \<Rightarrow> (table_status \<Rightarrow> table_status) \<Rightarrow> (string \<times> table_status) list
     \<Rightarrow> (string \<times> table_status) list" where
  "upd_table k f tbls = map (\<lambda>kv. if fst kv = k then (fst kv, f (snd kv)) else kv) tbls"

text \<open>The loop over the plan: \<open>report.tables[item.table].current += item.cfu\<close> throws for
  a table that the schema lacks.\<close>

fun sum_plan ::
  "item list \<Rightarrow> int \<Rightarrow> (string \<times> table_status) list
     \<Rightarrow> error + (int \<times> (string \<times> table_status) list)" where
  "sum_plan [] tot tbls = Inr (tot, tbls)"
| "sum_plan (it # rest) tot tbls =
     (case map_of tbls (table it) of
        None \<Rightarrow> Inl TypeError
      | Some st \<Rightarrow>
          sum_plan rest
            (if table it \<noteq> ''Fuori Piano'' then tot + cfu it else tot)
            (upd_table (table it) (\<lambda>s. s\<lparr>current := current s + cfu it\<rparr>) tbls))"

definition fail_with :: "string \<Rightarrow> report \<Rightarrow> report" where
  "fail_with msg r = r\<lparr>isValid := False, messages := messages r @ [msg]\<rparr>"

text \<open>The two branches of the loop over the rules of the curriculum.\<close>

definition check_bc :: "PlanManager \<Rightarrow> rule \<Rightarrow> int \<Rightarrow> report \<Rightarrow> report" where
  "check_bc m rl currentBC r =
     (if currentBC < min_sumBC_credits rl
      then fail_with
             (t m ''sum_bc_missing'' [(''missing'', JNum (min_sumBC_credits rl - currentBC))])
             (r\<lparr>specialRules := specialRules r @
                  [\<lparr>label = t m ''sum_bc_label'' [], sr_current = currentBC,
                    sr_min = min_sumBC_credits rl\<rparr>]\<rparr>)
      else r\<lparr>specialRules := specialRules r @
                [\<lparr>label = t m ''sum_bc_label'' [], sr_current = currentBC,
                  sr_min = min_sumBC_credits rl\<rparr>]\<rparr>)"

definition check_table :: "PlanManager \<Rightarrow> rule \<Rightarrow> table_status \<Rightarrow> report \<Rightarrow> report" where
  "check_table m rl st r =
     (if current st < min_credits rl
      then fail_with
             (t m ''table_missing_cfu''
                [(''table'', JStr (source rl)), (''missing'', JNum (min_credits rl - current st))])
             (r\<lparr>tables := upd_table (source rl) (\<lambda>s. s\<lparr>minimum := min_credits rl\<rparr>) (tables r)\<rparr>)
      else r\<lparr>tables := upd_table (source rl) (\<lambda>s. s\<lparr>minimum := min_credits rl\<rparr>) (tables r)\<rparr>)"

text \<open>\<open>progRules.forEach\<close>: \<open>report.tables["B"].current\<close> throws when the schema has no
  table B or C; a rule for a table outside the schema is skipped.\<close>

fun check_rules :: "PlanManager \<Rightarrow> rule list \<Rightarrow> report \<Rightarrow> error + report" where
  "check_rules m [] r = Inr r"
| "check_rules m (rl # rest) r =
     (if source rl = ''BC''
      then (case map_of (tables r) ''B'' of
              None \<Rightarrow> Inl TypeError
            | Some b \<Rightarrow>
                (case map_of (tables r) ''C'' of
                   None \<Rightarrow> Inl TypeError
                 | Some c \<Rightarrow> check_rules m rest (check_bc m rl (current b + current c) r)))
      else (case map_of (tables r) (source rl) of
              None \<Rightarrow> check_rules m rest r
            | Some st \<Rightarrow> check_rules m rest (check_table m rl st r)))"

text \<open>The two checks after the loop. The schema always has the table Obbligatori.\<close>

definition check_mandatory :: "PlanManager \<Rightarrow> report \<Rightarrow> error + report" where
  "check_mandatory m r =
     (case map_of (tables r) ''Obbligatori'' of
        None \<Rightarrow> Inl TypeError
      | Some st \<Rightarrow>
          Inr (if current st < minimum st then fail_with (t m ''mandatory_incomplete'' []) r
               else r))"

definition check_total :: "PlanManager \<Rightarrow> report \<Rightarrow> report" where
  "check_total m r =
     (if totalCredits r < total_credits (common (rules m))
      then fail_with
             (t m ''total_cfu_status''
                [(''current'', JNum (totalCredits r)),
                 (''min'', JNum (total_credits (common (rules m))))]) r
      else r)"

definition initial_report :: "PlanManager \<Rightarrow> int \<Rightarrow> (string \<times> table_status) list \<Rightarrow> report" where
  "initial_report m tot tbls =
     \<lparr> totalCredits = tot,
       tables =
         upd_table ''Facoltativi'' (\<lambda>s. s\<lparr>minimum := free_exams_credits (common (rules m))\<rparr>)
           (upd_table ''Obbligatori''
              (\<lambda>s. s\<lparr>minimum := foldl (\<lambda>s e. s + credits e) 0
                                     (mandatory_exams (common (rules m)))\<rparr>)
              tbls),
       specialRules = [], isValid = True, messages = [] \<rparr>"

text \<open>\<open>validate\<close> returns the report; the manager is returned with it, as the method
  leaves it.\<close>

definition validate :: "PlanManager \<Rightarrow> error + (report \<times> PlanManager)" where
  "validate m =
     (case sum_plan (plan m) 0 (map (\<lambda>k. (k, \<lparr>current = 0, minimum = 0\<rparr>)) (schema m)) of
        Inl e \<Rightarrow> Inl e
      | Inr tt \<Rightarrow>
          (case programs (rules m) (curriculum m) of
             None \<Rightarrow> Inl TypeError
           | Some progRules \<Rightarrow>
               (case check_rules m progRules (initial_report m (fst tt) (snd tt)) of
                  Inl e \<Rightarrow> Inl e
                | Inr r \<Rightarrow>
                    (case check_mandatory m r of
                       Inl e \<Rightarrow> Inl e
                     | Inr r' \<Rightarrow> Inr (check_total m r', m)))))"

section \<open>Notions of the specification\<close>

text \<open>The tokens of the raw table tag of an exam: split on \<open>|\<close> and trimmed.\<close>

definition raw_tokens :: "exam \<Rightarrow> string list" where
  "raw_tokens e =
     map js_trim (js_split (CHR ''|'') (case rawTable e of None \<Rightarrow> [] | Some r \<Rightarrow> r))"

text \<open>An entry without its table assignment, the mandatory entries and the active ones.\<close>

definition untabled :: "item \<Rightarrow> item" where
  "untabled it = it\<lparr>table := []\<rparr>"

definition mandatory_entries :: "item list \<Rightarrow> item list" where
  "mandatory_entries ps = filter (\<lambda>p. table p = ''Obbligatori'') ps"

definition active_entries :: "item list \<Rightarrow> item list" where
  "active_entries ps = filter (\<lambda>p. table p \<noteq> ''Obbligatori'') ps"

text \<open>The greedy pass in the words of the specification. \<open>credits_in placed tb\<close> is the
  sum of the credits that the entries processed so far in this pass have placed in the
  table \<open>tb\<close>; the minimum of a table is the \<open>min_credits\<close> of its rule (the last one, if
  several name it; 0 without a rule), the aggregate minimum the \<open>min_sumBC_credits\<close> of the
  rule \<open>BC\<close>.\<close>

definition credits_in :: "item list \<Rightarrow> string \<Rightarrow> int" where
  "credits_in placed tb = sum_list (map cfu (filter (\<lambda>p. table p = tb) placed))"

definition table_minimum :: "rule list \<Rightarrow> string \<Rightarrow> int" where
  "table_minimum progRules tb =
     (case filter (\<lambda>r. source r = tb) (rev progRules) of
        [] \<Rightarrow> 0
      | r # rs \<Rightarrow> min_credits r)"

definition aggregate_minimum :: "rule list \<Rightarrow> int" where
  "aggregate_minimum progRules =
     (case filter (\<lambda>r. source r = ''BC'') (rev progRules) of
        [] \<Rightarrow> 0
      | r # rs \<Rightarrow> min_sumBC_credits r)"

definition accepts :: "rule list \<Rightarrow> item list \<Rightarrow> string \<Rightarrow> bool" where
  "accepts progRules placed tb \<longleftrightarrow>
     credits_in placed tb < table_minimum progRules tb
     \<or> (tb \<in> {''B'', ''C''}
        \<and> credits_in placed ''B'' + credits_in placed ''C'' < aggregate_minimum progRules)"

definition greedy_choice :: "rule list \<Rightarrow> int \<Rightarrow> item list \<Rightarrow> string list \<Rightarrow> string" where
  "greedy_choice progRules freeTarget placed allowed =
     (case find (accepts progRules placed) allowed of
        Some tb \<Rightarrow> tb
      | None \<Rightarrow>
          if credits_in placed ''Facoltativi'' < freeTarget then ''Facoltativi''
          else ''Fuori Piano'')"

text \<open>The allowed tables of an entry: none for a custom entry.\<close>

definition allowed_tables :: "PlanManager \<Rightarrow> item \<Rightarrow> string list" where
  "allowed_tables m it =
     (if isCustom it then []
      else (case lookup_exam m (examId it) of None \<Rightarrow> [] | Some e \<Rightarrow> getAllowedTables m e))"

fun greedy_pass :: "PlanManager \<Rightarrow> rule list \<Rightarrow> item list \<Rightarrow> item list \<Rightarrow> item list" where
  "greedy_pass m progRules placed [] = []"
| "greedy_pass m progRules placed (it # rest) =
     it\<lparr>table := greedy_choice progRules (free_exams_credits (common (rules m))) placed
                    (allowed_tables m it)\<rparr>
     # greedy_pass m progRules
         (placed @ [it\<lparr>table := greedy_choice progRules (free_exams_credits (common (rules m)))
                                   placed (allowed_tables m it)\<rparr>])
         rest"

text \<open>Two entries that are the same, or differ only in their table and are both not
  mandatory.\<close>

definition same_but_table :: "item \<Rightarrow> item \<Rightarrow> bool" where
  "same_but_table a b \<longleftrightarrow>
     a = b \<or> (untabled a = untabled b \<and> table a \<noteq> ''Obbligatori'' \<and> table b \<noteq> ''Obbligatori'')"

text \<open>The number of entries of a plan that reference an exam id.\<close>

definition refs_to :: "string \<Rightarrow> item list \<Rightarrow> nat" where
  "refs_to i ps = length (filter (\<lambda>p. examId p = Some i) ps)"

text \<open>The states that the operations of the class reach from a fresh manager by calls
  that return. A call that throws adds no state here, although the code may have changed
  the manager before it threw (\<open>addExam\<close> pushes the entry before it reassigns the tables):
  the managers left behind by a throwing call are not covered.\<close>

inductive reachable :: "PlanManager \<Rightarrow> bool" where
  r_new: "reachable (new_PlanManager exams rs tr)"
| r_setYear: "reachable m \<Longrightarrow> reachable (setYear m y)"
| r_setCurriculum: "reachable m \<Longrightarrow> setCurriculum m c = Inr m' \<Longrightarrow> reachable m'"
| r_migratePlan: "reachable m \<Longrightarrow> migratePlan m = Inr m' \<Longrightarrow> reachable m'"
| r_addExam: "reachable m \<Longrightarrow> addExam m e tt = Inr (b, m') \<Longrightarrow> reachable m'"
| r_addCustomExam: "reachable m \<Longrightarrow> addCustomExam m now nm c tb = Inr m' \<Longrightarrow> reachable m'"
| r_removeExam: "reachable m \<Longrightarrow> removeExam m pid = Inr m' \<Longrightarrow> reachable m'"
| r_moveExam: "reachable m \<Longrightarrow> moveExam m pid nt = Inr (b, m') \<Longrightarrow> reachable m'"
| r_rebalanceBuckets: "reachable m \<Longrightarrow> rebalanceBuckets m = Inr m' \<Longrightarrow> reachable m'"
| r_validate: "reachable m \<Longrightarrow> validate m = Inr (r, m') \<Longrightarrow> reachable m'"
| r_reset: "reachable m \<Longrightarrow> reset m = Inr m' \<Longrightarrow> reachable m'"
| r_initDefaults: "reachable m \<Longrightarrow> initDefaults m = Inr m' \<Longrightarrow> reachable m'"

text \<open>The report in the words of the specification. The counted credits leave out the
  entries in Fuori Piano. A rule of the curriculum fails when the credits of its table, or
  of B and C together for the aggregate rule, are below its minimum; a rule for a table
  outside the schema is no check. The mandatory minimum is the sum of the credits of the
  mandatory exams, unless rules of the curriculum name the table Obbligatori: then it is
  the \<open>min_credits\<close> of the last of them.\<close>

definition counted_credits :: "item list \<Rightarrow> int" where
  "counted_credits ps = sum_list (map cfu (filter (\<lambda>p. table p \<noteq> ''Fuori Piano'') ps))"

definition rule_messages :: "PlanManager \<Rightarrow> rule \<Rightarrow> string list" where
  "rule_messages m rl =
     (if source rl = ''BC''
      then (if credits_in (plan m) ''B'' + credits_in (plan m) ''C'' < min_sumBC_credits rl
            then [t m ''sum_bc_missing''
                    [(''missing'', JNum (min_sumBC_credits rl
                        - (credits_in (plan m) ''B'' + credits_in (plan m) ''C'')))]]
            else [])
      else (if source rl \<in> set (schema m) \<and> credits_in (plan m) (source rl) < min_credits rl
            then [t m ''table_missing_cfu''
                    [(''table'', JStr (source rl)),
                     (''missing'', JNum (min_credits rl - credits_in (plan m) (source rl)))]]
            else []))"

definition mandatory_minimum :: "PlanManager \<Rightarrow> rule list \<Rightarrow> int" where
  "mandatory_minimum m progRules =
     foldl (\<lambda>mn rl. if source rl = ''Obbligatori'' then min_credits rl else mn)
       (sum_list (map credits (mandatory_exams (common (rules m))))) progRules"

definition mandatory_messages :: "PlanManager \<Rightarrow> rule list \<Rightarrow> string list" where
  "mandatory_messages m progRules =
     (if credits_in (plan m) ''Obbligatori'' < mandatory_minimum m progRules
      then [t m ''mandatory_incomplete'' []] else [])"

definition total_messages :: "PlanManager \<Rightarrow> string list" where
  "total_messages m =
     (if counted_credits (plan m) < total_credits (common (rules m))
      then [t m ''total_cfu_status''
              [(''current'', JNum (counted_credits (plan m))),
               (''min'', JNum (total_credits (common (rules m))))]]
      else [])"

definition expected_messages :: "PlanManager \<Rightarrow> rule list \<Rightarrow> string list" where
  "expected_messages m progRules =
     concat (map (rule_messages m) progRules) @ mandatory_messages m progRules
     @ total_messages m"

text \<open>The condition on the rules under which \<open>validate\<close> cannot throw: the aggregate rule
  \<open>BC\<close> appears only for a curriculum whose schema has the tables B and C.\<close>

definition rules_fit :: "PlanManager \<Rightarrow> rule list \<Rightarrow> bool" where
  "rules_fit m progRules \<longleftrightarrow>
     programs (rules m) (curriculum m) = Some progRules
     \<and> (list_ex (\<lambda>rl. source rl = ''BC'') progRules \<longrightarrow> curriculum m \<noteq> ''FBA'')"

text \<open>The credits of a plan added to the rows of \<open>report.tables\<close>.\<close>

definition add_credits :: "item list \<Rightarrow> (string \<times> table_status) list \<Rightarrow> (string \<times> table_status) list" where
  "add_credits ps tbls =
     map (\<lambda>kv. (fst kv, (snd kv)\<lparr>current := current (snd kv) + credits_in ps (fst kv)\<rparr>)) tbls"

text \<open>The state of the report while the rules are checked: every table of the schema with
  the credits of the plan, no other table.\<close>

definition currents_ok :: "PlanManager \<Rightarrow> report \<Rightarrow> bool" where
  "currents_ok m r \<longleftrightarrow>
     (\<forall>k. map_option current (map_of (tables r) k)
            = (if k \<in> set (schema m) then Some (credits_in (plan m) k) else None))"

section \<open>A configuration for the examples\<close>

text \<open>The rules of the scenarios: 120 credits in total, one mandatory exam of 12 credits,
  12 free credits; FBA with the minimums 12 and 54 for the tables 1 and 2; F94 with the
  minimums 18, 30 and 12 for A, B and C and 48 for the sum of B and C.\<close>

definition table_rule :: "string \<Rightarrow> int \<Rightarrow> rule" where
  "table_rule s n = \<lparr>source = s, min_credits = n, min_sumBC_credits = 0\<rparr>"

definition sum_rule :: "int \<Rightarrow> rule" where
  "sum_rule n = \<lparr>source = ''BC'', min_credits = 0, min_sumBC_credits = n\<rparr>"

definition demo_rules :: degree_requirements where
  "demo_rules =
     \<lparr> common = \<lparr> mandatory_exams = [\<lparr>mand_name = ''Tesi Finale'', credits = 12\<rparr>],
                  free_exams_credits = 12, total_credits = 120 \<rparr>,
       programs =
         [''FBA'' \<mapsto> [table_rule ''1'' 12, table_rule ''2'' 54],
          ''F94'' \<mapsto> [table_rule ''A'' 18, table_rule ''B'' 30, table_rule ''C'' 12,
                      sum_rule 48]] \<rparr>"

definition demo_exam :: "string \<Rightarrow> int \<Rightarrow> string \<Rightarrow> string \<Rightarrow> exam" where
  "demo_exam i c r a =
     \<lparr>exam_id = i, exam_name = i, exam_cfu = c, rawTable = Some r, availability = Some a\<rparr>"

definition demo_pm :: "exam list \<Rightarrow> string \<Rightarrow> string \<Rightarrow> item list \<Rightarrow> PlanManager" where
  "demo_pm exams y c p = (new_PlanManager exams demo_rules None)\<lparr>year := y, curriculum := c, plan := p\<rparr>"

definition demo_item :: "string \<Rightarrow> int \<Rightarrow> string \<Rightarrow> item" where
  "demo_item i c tb =
     \<lparr>item_id = i, examId = Some i, name = i, cfu = c, table = tb, isCustom = False\<rparr>"

lemmas js_eval =
  js_whitespace_def js_trim_def js_toLowerCase_def js_lower_char_def upper_lower_table_def
  js_startsWith_def js_parseInt_def strip_hex_def digit_val_def digit_table_def js_rem_def
  year_start_def

lemmas demo_eval =
  table_rule_def sum_rule_def demo_rules_def demo_exam_def demo_pm_def demo_item_def
  new_PlanManager_def

lemmas model_eval =
  getAllowedTables_def priority_def isEvenYear_def lookup_exam_def sum_cfu_def read_limits_def
  limit_of_def assign_table_def allowed_of_def rebalanceBuckets_def migratePlan_def
  setCurriculum_def default_table_def new_item_def addExam_def addCustomExam_def
  removeExam_def rebalance_true_def moveExam_def mandatory_item_def initDefaults_def
  reset_def setYear_def schema_def upd_table_def fail_with_def check_bc_def check_table_def
  check_mandatory_def check_total_def initial_report_def validate_def

text \<open>An F94 plan for the aggregate rule: two exams of 15 credits that only table B allows,
  one of 12 credits that only table C allows, and exams of 6 credits that B and C allow.\<close>

definition f94_catalog :: "exam list" where
  "f94_catalog =
     [demo_exam ''b1'' 15 ''B'' ''enabled'', demo_exam ''b2'' 15 ''B'' ''enabled'',
      demo_exam ''c1'' 12 ''C'' ''enabled'', demo_exam ''bc'' 6 ''C|B'' ''enabled'',
      demo_exam ''bc2'' 6 ''B|C'' ''enabled'']"

definition thesis_item :: item where
  "thesis_item =
     \<lparr>item_id = ''tesi-finale'', examId = None, name = ''Tesi Finale'', cfu = 12,
      table = ''Obbligatori'', isCustom = True\<rparr>"

definition f94_plan :: "item list" where
  "f94_plan =
     [demo_item ''b1'' 15 ''Facoltativi'', thesis_item, demo_item ''b2'' 15 ''Fuori Piano'',
      demo_item ''c1'' 12 ''Facoltativi'']"

definition f94_balanced :: "item list" where
  "f94_balanced =
     [thesis_item, demo_item ''b1'' 15 ''B'', demo_item ''b2'' 15 ''B'', demo_item ''c1'' 12 ''C'']"

definition f94_rules :: "rule list" where
  "f94_rules = [table_rule ''A'' 18, table_rule ''B'' 30, table_rule ''C'' 12, sum_rule 48]"

lemmas f94_eval = f94_catalog_def thesis_item_def f94_plan_def f94_balanced_def f94_rules_def

text \<open>An FBA catalogue and the manager after \<open>initDefaults\<close> and after adding the first
  exam.\<close>

definition fba_catalog :: "exam list" where
  "fba_catalog =
     [demo_exam ''e1'' 6 ''1'' ''enabled'', demo_exam ''e2'' 6 ''1|2'' ''enabled'',
      demo_exam ''e3'' 6 ''2'' ''From 2020'']"

definition fba_rules :: "rule list" where
  "fba_rules = [table_rule ''1'' 12, table_rule ''2'' 54]"

definition fba_new :: PlanManager where
  "fba_new = new_PlanManager fba_catalog demo_rules None"

definition fba_start :: PlanManager where
  "fba_start = demo_pm fba_catalog ''2025/2026'' ''FBA'' [thesis_item]"

definition fba_one :: PlanManager where
  "fba_one = demo_pm fba_catalog ''2025/2026'' ''FBA'' [thesis_item, demo_item ''e1'' 6 ''1'']"

text \<open>Rules that give FBA an aggregate rule, although its schema has no table B or C.\<close>

definition fba_bc_rules :: degree_requirements where
  "fba_bc_rules =
     \<lparr> common = \<lparr> mandatory_exams = [\<lparr>mand_name = ''Tesi Finale'', credits = 12\<rparr>],
                  free_exams_credits = 12, total_credits = 120 \<rparr>,
       programs = [''FBA'' \<mapsto> [table_rule ''1'' 12, table_rule ''2'' 54, sum_rule 48]] \<rparr>"

lemmas fba_eval = fba_catalog_def fba_rules_def fba_new_def fba_start_def fba_one_def
  fba_bc_rules_def thesis_item_def


section \<open>Facts about the string primitives\<close>

lemma js_startsWith_prefix: "js_startsWith s p \<longleftrightarrow> prefix p s"
proof
  assume "js_startsWith s p"
  then have "s = p @ drop (length p) s"
    unfolding js_startsWith_def by (metis append_take_drop_id)
  then show "prefix p s" by (metis prefixI)
next
  assume "prefix p s"
  then show "js_startsWith s p" by (auto simp: prefix_def js_startsWith_def)
qed

lemma js_includes_sublist: "js_includes s p \<longleftrightarrow> sublist p s"
  by (induction s) (simp_all add: js_startsWith_prefix sublist_Cons_right)

lemma js_remove_first_prefix: "p \<noteq> [] \<Longrightarrow> js_remove_first (p @ rest) p = rest"
  by (cases p) (simp_all add: js_startsWith_def)

lemma js_rem_2_even: "js_rem c 2 = 0 \<longleftrightarrow> even c"
  by (auto simp: js_rem_def sgn_if)

lemma isEvenYear_iff: "isEvenYear m \<longleftrightarrow> (\<exists>c. year_start (year m) = Some c \<and> even c)"
  by (auto simp: isEvenYear_def js_rem_2_even split: option.splits)

section \<open>Allowed tables\<close>

lemma sorted_ABC_blocks:
  "sorted (map priority ys) \<Longrightarrow> set ys \<subseteq> {''A'', ''B'', ''C''} \<Longrightarrow>
   \<exists>na nb nc. ys = replicate na ''A'' @ replicate nb ''B'' @ replicate nc ''C''"
proof (induction ys)
  case Nil
  then show ?case by simp
next
  case (Cons y ys)
  then obtain na nb nc where ys: "ys = replicate na ''A'' @ replicate nb ''B'' @ replicate nc ''C''"
    by auto
  from Cons.prems have y: "y = ''A'' \<or> y = ''B'' \<or> y = ''C''" by auto
  from Cons.prems have le: "\<forall>x\<in>set ys. priority y \<le> priority x" by simp
  consider (A) "y = ''A''" | (B) "y = ''B''" | (C) "y = ''C''" using y by blast
  then show ?case
  proof cases
    case A
    then have "y # ys = replicate (Suc na) ''A'' @ replicate nb ''B'' @ replicate nc ''C''"
      using ys by simp
    then show ?thesis by blast
  next
    case B
    have "na = 0"
    proof (rule ccontr)
      assume "na \<noteq> 0"
      then have "''A'' \<in> set ys" using ys by auto
      with le B show False by (auto simp: priority_def)
    qed
    then have "y # ys = replicate 0 ''A'' @ replicate (Suc nb) ''B'' @ replicate nc ''C''"
      using ys B by simp
    then show ?thesis by blast
  next
    case C
    have "na = 0"
    proof (rule ccontr)
      assume "na \<noteq> 0"
      then have "''A'' \<in> set ys" using ys by auto
      with le C show False by (auto simp: priority_def)
    qed
    moreover have "nb = 0"
    proof (rule ccontr)
      assume "nb \<noteq> 0"
      then have "''B'' \<in> set ys" using ys by auto
      with le C show False by (auto simp: priority_def)
    qed
    ultimately have "y # ys = replicate 0 ''A'' @ replicate 0 ''B'' @ replicate (Suc nc) ''C''"
      using ys C by simp
    then show ?thesis by blast
  qed
qed

lemma getAllowedTables_FBA:
  "curriculum m = ''FBA'' \<Longrightarrow>
   getAllowedTables m e = filter (\<lambda>p. p \<in> {''1'', ''2''}) (raw_tokens e)"
  by (simp add: getAllowedTables_def raw_tokens_def)

lemma getAllowedTables_F94:
  "curriculum m \<noteq> ''FBA'' \<Longrightarrow>
   getAllowedTables m e =
     sort_key priority (filter (\<lambda>p. p \<in> {''A'', ''B'', ''C''}) (raw_tokens e))"
  by (simp add: getAllowedTables_def raw_tokens_def)

lemma getAllowedTables_in_schema: "set (getAllowedTables m e) \<subseteq> set (schema m)"
  by (cases "curriculum m = ''FBA''")
     (auto simp: getAllowedTables_FBA getAllowedTables_F94 schema_def)

lemma getAllowedTables_not_special:
  "tb \<in> set (getAllowedTables m e) \<Longrightarrow>
   tb \<noteq> ''Obbligatori'' \<and> tb \<noteq> ''Facoltativi'' \<and> tb \<noteq> ''Fuori Piano''"
  by (cases "curriculum m = ''FBA''") (auto simp: getAllowedTables_FBA getAllowedTables_F94)

text \<open>
  Claim C7. Under FBA, \<open>getAllowedTables\<close> returns exactly the tokens of the raw table tag
  that are \<open>1\<close> or \<open>2\<close>, in their original relative order (a subsequence of the tokens).
  Under any other curriculum (F94) it returns the tokens that are \<open>A\<close>, \<open>B\<close> or \<open>C\<close>, as
  many of each as the tag has, with every \<open>A\<close> before every \<open>B\<close> before every \<open>C\<close>, whatever
  the order in the tag.
\<close>

theorem getAllowedTables_fixed_set:
  "(curriculum m = ''FBA'' \<longrightarrow>
      set (getAllowedTables m e) \<subseteq> {''1'', ''2''}
      \<and> getAllowedTables m e = filter (\<lambda>p. p \<in> {''1'', ''2''}) (raw_tokens e)
      \<and> subseq (getAllowedTables m e) (raw_tokens e))
   \<and> (curriculum m \<noteq> ''FBA'' \<longrightarrow>
      set (getAllowedTables m e) \<subseteq> {''A'', ''B'', ''C''}
      \<and> mset (getAllowedTables m e)
          = filter_mset (\<lambda>p. p \<in> {''A'', ''B'', ''C''}) (mset (raw_tokens e))
      \<and> (\<exists>na nb nc. getAllowedTables m e
             = replicate na ''A'' @ replicate nb ''B'' @ replicate nc ''C''))"
proof (intro conjI impI)
  assume fba: "curriculum m = ''FBA''"
  show eq: "getAllowedTables m e = filter (\<lambda>p. p \<in> {''1'', ''2''}) (raw_tokens e)"
    using fba by (rule getAllowedTables_FBA)
  show "set (getAllowedTables m e) \<subseteq> {''1'', ''2''}"
    unfolding eq by auto
  show "subseq (getAllowedTables m e) (raw_tokens e)"
    unfolding eq by simp
next
  assume f94: "curriculum m \<noteq> ''FBA''"
  note eq = getAllowedTables_F94 [OF f94, of e]
  show sub: "set (getAllowedTables m e) \<subseteq> {''A'', ''B'', ''C''}"
    unfolding eq by auto
  show "mset (getAllowedTables m e)
          = filter_mset (\<lambda>p. p \<in> {''A'', ''B'', ''C''}) (mset (raw_tokens e))"
    unfolding eq by simp
  have "sorted (map priority (getAllowedTables m e))"
    unfolding eq by simp
  then show "\<exists>na nb nc. getAllowedTables m e
             = replicate na ''A'' @ replicate nb ''B'' @ replicate nc ''C''"
    using sub by (rule sorted_ABC_blocks)
qed

theorem getAllowedTables_fixed_set_witness:
  "getAllowedTables (demo_pm [] ''2025/2026'' ''FBA'' []) (demo_exam ''e'' 6 ''2 | C|1 |A'' ''enabled'')
     = [''2'', ''1'']
   \<and> subseq [''2'', ''1''] (raw_tokens (demo_exam ''e'' 6 ''2 | C|1 |A'' ''enabled''))
   \<and> (\<exists>na nb nc. getAllowedTables (demo_pm [] ''2025/2026'' ''F94'' [])
                      (demo_exam ''e'' 6 ''2 | C|1 |A'' ''enabled'')
         = replicate na ''A'' @ replicate nb ''B'' @ replicate nc ''C'')"
proof -
  have tok: "raw_tokens (demo_exam ''e'' 6 ''2 | C|1 |A'' ''enabled'') = [''2'', ''C'', ''1'', ''A'']"
    by (simp add: raw_tokens_def demo_eval js_eval)
  have c1: "curriculum (demo_pm [] ''2025/2026'' ''FBA'' []) = ''FBA''"
    by (simp add: demo_eval)
  have c2: "curriculum (demo_pm [] ''2025/2026'' ''F94'' []) \<noteq> ''FBA''"
    by (simp add: demo_eval)
  show ?thesis
    using getAllowedTables_fixed_set
            [of "demo_pm [] ''2025/2026'' ''FBA'' []" "demo_exam ''e'' 6 ''2 | C|1 |A'' ''enabled''"]
          getAllowedTables_fixed_set
            [of "demo_pm [] ''2025/2026'' ''F94'' []" "demo_exam ''e'' 6 ''2 | C|1 |A'' ''enabled''"]
          c1 c2
    by (simp add: tok)
qed

section \<open>Availability\<close>

lemma lower_append: "js_toLowerCase (a @ b) = js_toLowerCase a @ js_toLowerCase b"
  by (simp add: js_toLowerCase_def)

lemma lower_From_not_keyword:
  "js_toLowerCase (''From '' @ rest) \<noteq> ''enabled'' \<and> js_toLowerCase (''From '' @ rest) \<noteq> ''disabled''"
  by (simp add: js_toLowerCase_def js_lower_char_def upper_lower_table_def)

lemma lower_Biennial_not_keyword:
  assumes "sublist ''Biennial'' a"
  shows "js_toLowerCase a \<noteq> ''enabled'' \<and> js_toLowerCase a \<noteq> ''disabled''"
proof -
  from assms obtain ps ss where a: "a = ps @ ''Biennial'' @ ss"
    by (auto simp: sublist_def)
  have len: "length (js_toLowerCase a) = length a" by (simp add: js_toLowerCase_def)
  have "length a \<ge> 8" using a by simp
  then have ne: "js_toLowerCase a \<noteq> ''enabled''" using len by auto
  have "js_toLowerCase a \<noteq> ''disabled''"
  proof
    assume d: "js_toLowerCase a = ''disabled''"
    then have "length a = 8" using len by simp
    then have "ps = [] \<and> ss = []" using a by simp
    then have "a = ''Biennial''" using a by simp
    then show False using d
      by (simp add: js_toLowerCase_def js_lower_char_def upper_lower_table_def)
  qed
  with ne show ?thesis by blast
qed

lemma getNextAvailabilityInfo_null_iff:
  "getNextAvailabilityInfo m e = None \<longleftrightarrow>
     (case availability e of None \<Rightarrow> True
      | Some a \<Rightarrow> a = [] \<or> js_toLowerCase a = ''enabled'')"
  by (auto simp: getNextAvailabilityInfo_def split: option.splits)

text \<open>
  Claim C5, as amended. \<open>isExamAvailable\<close> is true for a missing or empty availability.
  Otherwise the descriptor is read in this order. The whole text, compared without regard
  to case, equal to \<open>enabled\<close> gives true and equal to \<open>disabled\<close> gives false. A text
  that starts with \<open>From \<close>, in exactly this spelling, gives true iff the start components
  of the active year and of the rest of the text both parse as integers and the first is at
  least the second. A text that does not start with \<open>From \<close> and contains \<open>Biennial\<close> and
  \<open>Even\<close>, in exactly this spelling, gives true iff the start component of the active year
  is an even integer; with \<open>Odd\<close> and without \<open>Even\<close> it gives true iff that component is
  not an even integer. Every other text gives true.
\<close>

theorem isExamAvailable_descriptor:
  "(availability e = None \<or> availability e = Some [] \<longrightarrow> isExamAvailable m e)
   \<and> (\<forall>a. availability e = Some a \<longrightarrow>
        (js_toLowerCase a = ''enabled'' \<longrightarrow> isExamAvailable m e)
      \<and> (js_toLowerCase a = ''disabled'' \<longrightarrow> \<not> isExamAvailable m e)
      \<and> (\<forall>rest. a = ''From '' @ rest \<longrightarrow>
            (isExamAvailable m e \<longleftrightarrow>
               (\<exists>c f. year_start (year m) = Some c \<and> year_start (js_trim rest) = Some f \<and> f \<le> c)))
      \<and> (\<not> prefix ''From '' a \<and> sublist ''Biennial'' a \<and> sublist ''Even'' a \<longrightarrow>
            (isExamAvailable m e \<longleftrightarrow> (\<exists>c. year_start (year m) = Some c \<and> even c)))
      \<and> (\<not> prefix ''From '' a \<and> sublist ''Biennial'' a \<and> \<not> sublist ''Even'' a \<and> sublist ''Odd'' a \<longrightarrow>
            (isExamAvailable m e \<longleftrightarrow> \<not> (\<exists>c. year_start (year m) = Some c \<and> even c)))
      \<and> (js_toLowerCase a \<noteq> ''disabled'' \<and> \<not> prefix ''From '' a
           \<and> \<not> (sublist ''Biennial'' a \<and> (sublist ''Even'' a \<or> sublist ''Odd'' a)) \<longrightarrow>
            isExamAvailable m e))"
proof (intro conjI allI impI)
  assume "availability e = None \<or> availability e = Some []"
  then show "isExamAvailable m e" by (auto simp: isExamAvailable_def)
next
  fix a assume "availability e = Some a" "js_toLowerCase a = ''enabled''"
  then show "isExamAvailable m e" by (simp add: isExamAvailable_def)
next
  fix a assume "availability e = Some a" "js_toLowerCase a = ''disabled''"
  then show "\<not> isExamAvailable m e"
    by (auto simp: isExamAvailable_def js_toLowerCase_def)
next
  fix a rest assume a: "availability e = Some a" "a = ''From '' @ rest"
  have sw: "js_startsWith a ''From ''" using a by (simp add: js_startsWith_def)
  have rm: "js_remove_first a ''From '' = rest"
    using a js_remove_first_prefix [of "''From ''" rest] by simp
  have nk: "a \<noteq> [] \<and> js_toLowerCase a \<noteq> ''enabled'' \<and> js_toLowerCase a \<noteq> ''disabled''"
    using a lower_From_not_keyword [of rest] by auto
  show "isExamAvailable m e \<longleftrightarrow>
          (\<exists>c f. year_start (year m) = Some c \<and> year_start (js_trim rest) = Some f \<and> f \<le> c)"
    using a(1) sw rm nk by (auto simp: isExamAvailable_def split: option.splits)
next
  fix a assume a: "availability e = Some a"
    "\<not> prefix ''From '' a \<and> sublist ''Biennial'' a \<and> sublist ''Even'' a"
  have nk: "a \<noteq> [] \<and> js_toLowerCase a \<noteq> ''enabled'' \<and> js_toLowerCase a \<noteq> ''disabled''"
    using a lower_Biennial_not_keyword [of a] by auto
  show "isExamAvailable m e \<longleftrightarrow> (\<exists>c. year_start (year m) = Some c \<and> even c)"
    using a nk
    by (simp add: isExamAvailable_def js_startsWith_prefix js_includes_sublist isEvenYear_iff)
next
  fix a assume a: "availability e = Some a"
    "\<not> prefix ''From '' a \<and> sublist ''Biennial'' a \<and> \<not> sublist ''Even'' a \<and> sublist ''Odd'' a"
  have nk: "a \<noteq> [] \<and> js_toLowerCase a \<noteq> ''enabled'' \<and> js_toLowerCase a \<noteq> ''disabled''"
    using a lower_Biennial_not_keyword [of a] by auto
  show "isExamAvailable m e \<longleftrightarrow> \<not> (\<exists>c. year_start (year m) = Some c \<and> even c)"
    using a nk
    by (simp add: isExamAvailable_def js_startsWith_prefix js_includes_sublist isEvenYear_iff)
next
  fix a assume a: "availability e = Some a"
    "js_toLowerCase a \<noteq> ''disabled'' \<and> \<not> prefix ''From '' a
       \<and> \<not> (sublist ''Biennial'' a \<and> (sublist ''Even'' a \<or> sublist ''Odd'' a))"
  then show "isExamAvailable m e"
    by (auto simp: isExamAvailable_def js_startsWith_prefix js_includes_sublist)
qed

theorem isExamAvailable_descriptor_witness:
  "isExamAvailable (demo_pm [] ''2021/2022'' ''FBA'' []) (demo_exam ''e'' 6 ''1'' ''From 2020'')
   \<and> \<not> isExamAvailable (demo_pm [] ''2018/2019'' ''FBA'' []) (demo_exam ''e'' 6 ''1'' ''From 2020'')
   \<and> \<not> isExamAvailable (demo_pm [] ''2025/2026'' ''FBA'' []) (demo_exam ''e'' 6 ''1'' ''Biennial Even'')
   \<and> \<not> isExamAvailable (demo_pm [] ''2025/2026'' ''FBA'' []) (demo_exam ''e'' 6 ''1'' ''DisAbled'')"
proof -
  have y1: "year_start ''2021/2022'' = Some 2021" by (simp add: js_eval)
  have y2: "year_start ''2018/2019'' = Some 2018" by (simp add: js_eval)
  have y3: "year_start ''2025/2026'' = Some 2025" by (simp add: js_eval)
  have f: "year_start (js_trim ''2020'') = Some 2020" by (simp add: js_eval)
  have d: "js_toLowerCase ''DisAbled'' = ''disabled''" by (simp add: js_eval)
  have b: "\<not> prefix ''From '' ''Biennial Even'' \<and> sublist ''Biennial'' ''Biennial Even''
           \<and> sublist ''Even'' ''Biennial Even''"
    by (simp add: sublist_Cons_right)
  have 1: "isExamAvailable (demo_pm [] ''2021/2022'' ''FBA'' []) (demo_exam ''e'' 6 ''1'' ''From 2020'')"
    using isExamAvailable_descriptor
            [of "demo_exam ''e'' 6 ''1'' ''From 2020''" "demo_pm [] ''2021/2022'' ''FBA'' []"] y1 f
    by (simp add: demo_eval)
  have 2: "\<not> isExamAvailable (demo_pm [] ''2018/2019'' ''FBA'' []) (demo_exam ''e'' 6 ''1'' ''From 2020'')"
    using isExamAvailable_descriptor
            [of "demo_exam ''e'' 6 ''1'' ''From 2020''" "demo_pm [] ''2018/2019'' ''FBA'' []"] y2 f
    by (simp add: demo_eval)
  have 3: "\<not> isExamAvailable (demo_pm [] ''2025/2026'' ''FBA'' []) (demo_exam ''e'' 6 ''1'' ''Biennial Even'')"
    using isExamAvailable_descriptor
            [of "demo_exam ''e'' 6 ''1'' ''Biennial Even''" "demo_pm [] ''2025/2026'' ''FBA'' []"] y3 b
    by (simp add: demo_eval)
  have 4: "\<not> isExamAvailable (demo_pm [] ''2025/2026'' ''FBA'' []) (demo_exam ''e'' 6 ''1'' ''DisAbled'')"
    using isExamAvailable_descriptor
            [of "demo_exam ''e'' 6 ''1'' ''DisAbled''" "demo_pm [] ''2025/2026'' ''FBA'' []"] d
    by (simp add: demo_eval)
  from 1 2 3 4 show ?thesis by blast
qed

text \<open>
  The claim as stated, with the keywords \<open>From\<close>, \<open>Biennial\<close> and \<open>Odd\<close> read without
  regard to case, fails: in the even year 2024/2025 the descriptor \<open>biennial odd\<close> is
  available although \<open>Biennial Odd\<close> is not, and in 2025/2026 the descriptor
  \<open>from 2030\<close> is available although \<open>From 2030\<close> is not.
\<close>

theorem isExamAvailable_keyword_case_counterexample:
  "js_toLowerCase ''biennial odd'' = js_toLowerCase ''Biennial Odd''
   \<and> isExamAvailable (demo_pm [] ''2024/2025'' ''FBA'' []) (demo_exam ''e'' 6 ''1'' ''biennial odd'')
   \<and> \<not> isExamAvailable (demo_pm [] ''2024/2025'' ''FBA'' []) (demo_exam ''e'' 6 ''1'' ''Biennial Odd'')
   \<and> js_toLowerCase ''from 2030'' = js_toLowerCase ''From 2030''
   \<and> isExamAvailable (demo_pm [] ''2025/2026'' ''FBA'' []) (demo_exam ''e'' 6 ''1'' ''from 2030'')
   \<and> \<not> isExamAvailable (demo_pm [] ''2025/2026'' ''FBA'' []) (demo_exam ''e'' 6 ''1'' ''From 2030'')"
proof (intro conjI)
  show "js_toLowerCase ''biennial odd'' = js_toLowerCase ''Biennial Odd''"
    by (simp add: js_eval)
  show "isExamAvailable (demo_pm [] ''2024/2025'' ''FBA'' []) (demo_exam ''e'' 6 ''1'' ''biennial odd'')"
    by (simp add: isExamAvailable_def model_eval demo_eval js_eval)
  show "\<not> isExamAvailable (demo_pm [] ''2024/2025'' ''FBA'' []) (demo_exam ''e'' 6 ''1'' ''Biennial Odd'')"
    by (simp add: isExamAvailable_def model_eval demo_eval js_eval)
  show "js_toLowerCase ''from 2030'' = js_toLowerCase ''From 2030''"
    by (simp add: js_eval)
  show "isExamAvailable (demo_pm [] ''2025/2026'' ''FBA'' []) (demo_exam ''e'' 6 ''1'' ''from 2030'')"
    by (simp add: isExamAvailable_def model_eval demo_eval js_eval)
  show "\<not> isExamAvailable (demo_pm [] ''2025/2026'' ''FBA'' []) (demo_exam ''e'' 6 ''1'' ''From 2030'')"
    by (simp add: isExamAvailable_def model_eval demo_eval js_eval)
qed

text \<open>
  Claim C4. The claim says that \<open>getNextAvailabilityInfo\<close> returns \<open>null\<close> whenever the
  exam is available, and so does the comment of the method; the code returns \<open>null\<close> only
  for a missing, empty or \<open>enabled\<close> availability (\<open>getNextAvailabilityInfo_null_iff\<close>).
  For the availability \<open>From 2020\<close>, after \<open>setYear("2021/2022")\<close> the exam is available
  and the method still returns the message \<open>available_from\<close> for the date 2020, for every
  translation function \<open>f\<close>.
\<close>

theorem getNextAvailabilityInfo_From_when_available:
  "isExamAvailable (setYear (new_PlanManager [] demo_rules (Some f)) ''2021/2022'')
     (demo_exam ''e'' 6 ''1'' ''From 2020'')
   \<and> getNextAvailabilityInfo (setYear (new_PlanManager [] demo_rules (Some f)) ''2021/2022'')
       (demo_exam ''e'' 6 ''1'' ''From 2020'')
     = Some (f ''available_from'' [(''date'', JStr ''2020'')])"
proof
  show "isExamAvailable (setYear (new_PlanManager [] demo_rules (Some f)) ''2021/2022'')
     (demo_exam ''e'' 6 ''1'' ''From 2020'')"
    by (simp add: isExamAvailable_def model_eval demo_eval js_eval)
  show "getNextAvailabilityInfo (setYear (new_PlanManager [] demo_rules (Some f)) ''2021/2022'')
       (demo_exam ''e'' 6 ''1'' ''From 2020'')
     = Some (f ''available_from'' [(''date'', JStr ''2020'')])"
    by (simp add: getNextAvailabilityInfo_def model_eval demo_eval js_eval)
qed

section \<open>The bucket reassignment is the greedy pass\<close>

lemma sum_cfu_sum_list: "sum_cfu ps = sum_list (map cfu ps)"
proof -
  have "foldl (\<lambda>s p. s + cfu p) a ps = a + sum_list (map cfu ps)" for a
    by (induction ps arbitrary: a) simp_all
  then show ?thesis by (simp add: sum_cfu_def)
qed

lemma read_limits_snoc:
  "read_limits (rs @ [r]) =
     (if source r = ''BC'' then (fst (read_limits rs), min_sumBC_credits r)
      else ((fst (read_limits rs))(source r \<mapsto> min_credits r), snd (read_limits rs)))"
  by (simp add: read_limits_def)

lemma read_limits_Nil: "read_limits [] = (Map.empty, 0)"
  by (simp add: read_limits_def)

lemma limits_no_BC: "fst (read_limits rs) ''BC'' = None"
  by (induction rs rule: rev_induct) (simp_all add: read_limits_Nil read_limits_snoc)

lemma limit_of_table_minimum:
  "tb \<noteq> ''BC'' \<Longrightarrow> limit_of (fst (read_limits rs)) tb = table_minimum rs tb"
proof (induction rs rule: rev_induct)
  case Nil
  then show ?case by (simp add: read_limits_Nil limit_of_def table_minimum_def)
next
  case (snoc r rs)
  then show ?case
    by (auto simp: read_limits_snoc limit_of_def table_minimum_def)
qed

lemma minSumBC_aggregate_minimum: "snd (read_limits rs) = aggregate_minimum rs"
proof (induction rs rule: rev_induct)
  case Nil
  then show ?case by (simp add: read_limits_Nil aggregate_minimum_def)
next
  case (snoc r rs)
  then show ?case
    by (auto simp: read_limits_snoc aggregate_minimum_def)
qed

lemma credits_in_append: "credits_in (xs @ ys) tb = credits_in xs tb + credits_in ys tb"
  by (simp add: credits_in_def)

lemma credits_in_mandatory:
  "\<forall>p\<in>set M. table p = ''Obbligatori'' \<Longrightarrow> tb \<noteq> ''Obbligatori'' \<Longrightarrow> credits_in M tb = 0"
  by (induction M) (auto simp: credits_in_def)

lemma sum_cfu_table: "sum_cfu (filter (\<lambda>p. table p = tb) ps) = credits_in ps tb"
  by (simp add: sum_cfu_sum_list credits_in_def)

lemma sum_cfu_BC:
  "sum_cfu (filter (\<lambda>p. table p = ''B'' \<or> table p = ''C'') ps)
     = credits_in ps ''B'' + credits_in ps ''C''"
  by (induction ps) (auto simp: sum_cfu_sum_list credits_in_def)

lemma attempt1_find:
  assumes "\<forall>p\<in>set M. table p = ''Obbligatori''"
    and "''Obbligatori'' \<notin> set allowed" and "''BC'' \<notin> set allowed"
  shows "attempt1 (fst (read_limits rs)) (snd (read_limits rs)) (M @ placed) allowed
           = find (accepts rs placed) allowed"
  using assms(2,3)
proof (induction allowed)
  case Nil
  then show ?case by simp
next
  case (Cons tb tbs)
  have "tb \<noteq> ''Obbligatori''" using Cons.prems by auto
  then have 1: "credits_in (M @ placed) tb = credits_in placed tb"
    using assms(1) by (simp add: credits_in_append credits_in_mandatory)
  have 2: "credits_in (M @ placed) ''B'' + credits_in (M @ placed) ''C''
             = credits_in placed ''B'' + credits_in placed ''C''"
    using assms(1) by (simp add: credits_in_append credits_in_mandatory)
  have "tb \<noteq> ''BC''" using Cons.prems by auto
  then have 3: "limit_of (fst (read_limits rs)) tb = table_minimum rs tb"
    by (rule limit_of_table_minimum)
  have acc: "(sum_cfu (filter (\<lambda>p. table p = tb) (M @ placed)) < limit_of (fst (read_limits rs)) tb
         \<or> ((tb = ''B'' \<or> tb = ''C'')
             \<and> sum_cfu (filter (\<lambda>p. table p = ''B'' \<or> table p = ''C'') (M @ placed))
                 < snd (read_limits rs)))
        \<longleftrightarrow> accepts rs placed tb"
    unfolding sum_cfu_table sum_cfu_BC 1 2 3 minSumBC_aggregate_minimum accepts_def by auto
  have ih: "attempt1 (fst (read_limits rs)) (snd (read_limits rs)) (M @ placed) tbs
              = find (accepts rs placed) tbs"
    using Cons by simp
  show ?case
    unfolding attempt1.simps find.simps acc ih by simp
qed

lemma assign_table_greedy_choice:
  assumes "\<forall>p\<in>set M. table p = ''Obbligatori''"
    and "''Obbligatori'' \<notin> set allowed" and "''BC'' \<notin> set allowed"
  shows "assign_table (fst (read_limits rs)) (snd (read_limits rs)) freeLimit (M @ placed) allowed
           = greedy_choice rs freeLimit placed allowed"
proof -
  have "credits_in (M @ placed) ''Facoltativi'' = credits_in placed ''Facoltativi''"
    using assms(1) by (simp add: credits_in_append credits_in_mandatory)
  then show ?thesis
    using attempt1_find [OF assms, of rs placed]
    by (simp add: assign_table_def greedy_choice_def sum_cfu_table del: filter_append)
qed

lemma getAllowedTables_no_BC: "''BC'' \<notin> set (getAllowedTables m e)"
  using getAllowedTables_in_schema [of m e] by (auto simp: schema_def split: if_splits)

lemma allowed_of_allowed_tables:
  "allowed_of m it = Inr al \<Longrightarrow> al = allowed_tables m it"
  by (auto simp: allowed_of_def allowed_tables_def split: if_splits option.splits)

lemma allowed_tables_plain:
  "''Obbligatori'' \<notin> set (allowed_tables m it) \<and> ''BC'' \<notin> set (allowed_tables m it)
   \<and> ''Facoltativi'' \<notin> set (allowed_tables m it) \<and> ''Fuori Piano'' \<notin> set (allowed_tables m it)"
  using getAllowedTables_not_special getAllowedTables_no_BC
  by (auto simp: allowed_tables_def split: option.splits)

lemma rebalance_loop_greedy_pass:
  assumes "\<forall>p\<in>set M. table p = ''Obbligatori''"
  shows "rebalance_loop m (fst (read_limits rs)) (snd (read_limits rs))
           (free_exams_credits (common (rules m))) (M @ placed) xs = Inr ys
         \<Longrightarrow> ys = M @ placed @ greedy_pass m rs placed xs"
proof (induction xs arbitrary: placed ys)
  case Nil
  then show ?case by simp
next
  case (Cons it rest)
  from Cons.prems obtain al where al: "allowed_of m it = Inr al"
    by (cases "allowed_of m it") auto
  then have al_eq: "al = allowed_tables m it" by (rule allowed_of_allowed_tables)
  have ch: "assign_table (fst (read_limits rs)) (snd (read_limits rs))
              (free_exams_credits (common (rules m))) (M @ placed) al
            = greedy_choice rs (free_exams_credits (common (rules m))) placed (allowed_tables m it)"
    using assign_table_greedy_choice [OF assms, of "allowed_tables m it" rs _ placed]
          allowed_tables_plain [of m it] al_eq by simp
  let ?it' = "it\<lparr>table := greedy_choice rs (free_exams_credits (common (rules m))) placed
                             (allowed_tables m it)\<rparr>"
  from Cons.prems al ch
  have "rebalance_loop m (fst (read_limits rs)) (snd (read_limits rs))
           (free_exams_credits (common (rules m))) (M @ (placed @ [?it'])) rest = Inr ys"
    by simp
  from Cons.IH [OF this] show ?case by simp
qed

section \<open>The shape of a reassigned plan\<close>

lemma untabled_update: "untabled (it\<lparr>table := tb\<rparr>) = untabled it"
  by (simp add: untabled_def)

lemma untabled_eq_update: "untabled a = untabled b \<Longrightarrow> a\<lparr>table := tb\<rparr> = b\<lparr>table := tb\<rparr>"
proof -
  assume "untabled a = untabled b"
  then have "(untabled a)\<lparr>table := tb\<rparr> = (untabled b)\<lparr>table := tb\<rparr>" by simp
  then show ?thesis by (simp add: untabled_def)
qed

lemma untabled_fields:
  "untabled a = untabled b \<Longrightarrow>
   item_id a = item_id b \<and> examId a = examId b \<and> cfu a = cfu b \<and> isCustom a = isCustom b
   \<and> name a = name b"
proof -
  assume h: "untabled a = untabled b"
  have "item_id (untabled a) = item_id a" "examId (untabled a) = examId a"
       "cfu (untabled a) = cfu a" "isCustom (untabled a) = isCustom a" "name (untabled a) = name a"
       "item_id (untabled b) = item_id b" "examId (untabled b) = examId b"
       "cfu (untabled b) = cfu b" "isCustom (untabled b) = isCustom b" "name (untabled b) = name b"
    by (simp_all add: untabled_def)
  with h show ?thesis by metis
qed

lemma allowed_of_untabled: "untabled a = untabled b \<Longrightarrow> allowed_of m a = allowed_of m b"
  using untabled_fields [of a b] by (simp add: allowed_of_def)

lemma allowed_tables_untabled: "untabled a = untabled b \<Longrightarrow> allowed_tables m a = allowed_tables m b"
  using untabled_fields [of a b] by (simp add: allowed_tables_def)

text \<open>The loop never reads the table of the entry it places.\<close>

lemma rebalance_loop_untabled:
  "list_all2 (\<lambda>a b. untabled a = untabled b) xs ys \<Longrightarrow>
   rebalance_loop m lim sbc fr acc xs = rebalance_loop m lim sbc fr acc ys"
proof (induction xs ys arbitrary: acc rule: list_all2_induct)
  case Nil
  then show ?case by simp
next
  case (Cons a xs b ys)
  have al: "allowed_of m a = allowed_of m b" using Cons.hyps(1) by (rule allowed_of_untabled)
  show ?case
  proof (cases "allowed_of m b")
    case (Inl e)
    then show ?thesis using al by simp
  next
    case (Inr allowed)
    have "a\<lparr>table := assign_table lim sbc fr acc allowed\<rparr>
            = b\<lparr>table := assign_table lim sbc fr acc allowed\<rparr>"
      using Cons.hyps(1) by (rule untabled_eq_update)
    then show ?thesis using al Inr Cons.IH by simp
  qed
qed

lemma rebalance_loop_append:
  "rebalance_loop m lim sbc fr acc (xs @ ys) =
     (case rebalance_loop m lim sbc fr acc xs of
        Inl e \<Rightarrow> Inl e
      | Inr r \<Rightarrow> rebalance_loop m lim sbc fr r ys)"
  by (induction xs arbitrary: acc) (simp_all split: sum.splits)

lemma attempt1_in_allowed: "attempt1 lim sbc np al = Some tb \<Longrightarrow> tb \<in> set al"
  by (induction al) (auto split: if_splits)

lemma assign_table_range:
  "assign_table lim sbc fr np al \<in> set al \<union> {''Facoltativi'', ''Fuori Piano''}"
  by (auto simp: assign_table_def dest: attempt1_in_allowed split: option.splits)

text \<open>The result of the loop: the accumulator, then the entries in their order, each with a
  table among its allowed ones, Facoltativi or Fuori Piano.\<close>

lemma rebalance_loop_shape:
  "rebalance_loop m lim sbc fr acc xs = Inr ys \<Longrightarrow>
   \<exists>zs. ys = acc @ zs \<and> map untabled zs = map untabled xs
        \<and> (\<forall>z\<in>set zs. table z \<in> set (allowed_tables m z) \<union> {''Facoltativi'', ''Fuori Piano''})
        \<and> (\<forall>z\<in>set zs. allowed_of m z = Inr (allowed_tables m z))"
proof (induction xs arbitrary: acc ys)
  case Nil
  then show ?case by simp
next
  case (Cons it rest)
  from Cons.prems obtain al where al: "allowed_of m it = Inr al"
    by (cases "allowed_of m it") auto
  then have al_eq: "al = allowed_tables m it" by (rule allowed_of_allowed_tables)
  let ?it' = "it\<lparr>table := assign_table lim sbc fr acc al\<rparr>"
  from Cons.prems al have "rebalance_loop m lim sbc fr (acc @ [?it']) rest = Inr ys" by simp
  from Cons.IH [OF this] obtain zs where zs: "ys = (acc @ [?it']) @ zs"
    "map untabled zs = map untabled rest"
    "\<forall>z\<in>set zs. table z \<in> set (allowed_tables m z) \<union> {''Facoltativi'', ''Fuori Piano''}"
    "\<forall>z\<in>set zs. allowed_of m z = Inr (allowed_tables m z)"
    by blast
  have u: "untabled ?it' = untabled it" by (rule untabled_update)
  have t1: "table ?it' \<in> set (allowed_tables m ?it') \<union> {''Facoltativi'', ''Fuori Piano''}"
    using assign_table_range [of lim sbc fr acc al] al_eq allowed_tables_untabled [OF u, of m]
    by simp
  have t2: "allowed_of m ?it' = Inr (allowed_tables m ?it')"
    using al al_eq allowed_of_untabled [OF u, of m] allowed_tables_untabled [OF u, of m] by simp
  show ?case
  proof (intro exI conjI)
    show "ys = acc @ (?it' # zs)" using zs(1) by simp
    show "map untabled (?it' # zs) = map untabled (it # rest)" using zs(2) u by simp
    show "\<forall>z\<in>set (?it' # zs). table z \<in> set (allowed_tables m z) \<union> {''Facoltativi'', ''Fuori Piano''}"
      using zs(3) t1 by simp
    show "\<forall>z\<in>set (?it' # zs). allowed_of m z = Inr (allowed_tables m z)"
      using zs(4) t2 by simp
  qed
qed

lemma allowed_tables_in_schema: "set (allowed_tables m it) \<subseteq> set (schema m)"
  using getAllowedTables_in_schema by (auto simp: allowed_tables_def split: option.splits)

lemma rebalanceBuckets_frame:
  "rebalanceBuckets m = Inr m' \<Longrightarrow> m' = m\<lparr>plan := plan m'\<rparr>"
  by (auto simp: rebalanceBuckets_def split: option.splits sum.splits)

text \<open>The result of \<open>rebalanceBuckets\<close>: the mandatory entries untouched and first, then the
  active entries in their order with new tables.\<close>

lemma rebalanceBuckets_shape:
  assumes "rebalanceBuckets m = Inr m'"
  shows "\<exists>zs. plan m' = mandatory_entries (plan m) @ zs
          \<and> map untabled zs = map untabled (active_entries (plan m))
          \<and> (\<forall>z\<in>set zs. table z \<in> set (allowed_tables m z) \<union> {''Facoltativi'', ''Fuori Piano''})
          \<and> (\<forall>z\<in>set zs. allowed_of m z = Inr (allowed_tables m z))
          \<and> (\<forall>z\<in>set zs. table z \<noteq> ''Obbligatori'')"
proof -
  from assms obtain rs np where rs: "programs (rules m) (curriculum m) = Some rs"
    and np: "rebalance_loop m (fst (read_limits rs)) (snd (read_limits rs))
               (free_exams_credits (common (rules m)))
               (mandatory_entries (plan m)) (active_entries (plan m)) = Inr np"
    and m': "plan m' = np"
    by (auto simp: rebalanceBuckets_def mandatory_entries_def active_entries_def
             split: option.splits sum.splits)
  from rebalance_loop_shape [OF np] obtain zs where zs: "np = mandatory_entries (plan m) @ zs"
    "map untabled zs = map untabled (active_entries (plan m))"
    "\<forall>z\<in>set zs. table z \<in> set (allowed_tables m z) \<union> {''Facoltativi'', ''Fuori Piano''}"
    "\<forall>z\<in>set zs. allowed_of m z = Inr (allowed_tables m z)"
    by blast
  have "\<forall>z\<in>set zs. table z \<noteq> ''Obbligatori''"
    using zs(3) allowed_tables_plain by fastforce
  with zs m' show ?thesis by blast
qed

text \<open>The loop returns exactly when the allowed tables of every entry can be computed.\<close>

lemma rebalance_loop_resolvable:
  "rebalance_loop m lim sbc fr acc xs = Inr r \<Longrightarrow> \<forall>x\<in>set xs. \<exists>al. allowed_of m x = Inr al"
proof (induction xs arbitrary: acc)
  case Nil
  then show ?case by simp
next
  case (Cons it rest)
  from Cons.prems obtain al where al: "allowed_of m it = Inr al"
    by (cases "allowed_of m it") auto
  with Cons.prems Cons.IH show ?case by auto
qed

lemma rebalance_loop_succeeds:
  "\<forall>x\<in>set xs. \<exists>al. allowed_of m x = Inr al \<Longrightarrow>
   \<exists>r. rebalance_loop m lim sbc fr acc xs = Inr r"
proof (induction xs arbitrary: acc)
  case Nil
  then show ?case by simp
next
  case (Cons it rest)
  then obtain al where "allowed_of m it = Inr al" by auto
  with Cons show ?case by simp
qed

section \<open>Claim C1: the greedy pass\<close>

lemma allowed_of_plan [simp]: "allowed_of (m\<lparr>plan := x\<rparr>) it = allowed_of m it"
  by (simp add: allowed_of_def lookup_exam_def getAllowedTables_def split: option.splits)

lemma allowed_tables_plan [simp]: "allowed_tables (m\<lparr>plan := x\<rparr>) it = allowed_tables m it"
  by (simp add: allowed_tables_def lookup_exam_def getAllowedTables_def split: option.splits)

lemma rebalance_loop_plan [simp]:
  "rebalance_loop (m\<lparr>plan := x\<rparr>) lim sbc fr acc xs = rebalance_loop m lim sbc fr acc xs"
  by (induction xs arbitrary: acc) (simp_all split: sum.splits)

lemma allowed_tables_nonempty:
  "allowed_tables m it \<noteq> [] \<Longrightarrow> allowed_of m it = Inr (allowed_tables m it)"
  by (auto simp: allowed_tables_def allowed_of_def split: if_splits option.splits)

lemma assign_table_aggregate:
  assumes "al \<noteq> []" and "set al \<subseteq> {''B'', ''C''}"
    and "credits_in np ''B'' + credits_in np ''C'' < aggregate_minimum rs"
  shows "assign_table (fst (read_limits rs)) (snd (read_limits rs)) fr np al = hd al"
proof -
  from assms(1) obtain tb tbs where al: "al = tb # tbs" by (cases al) auto
  with assms(2) have tb: "tb = ''B'' \<or> tb = ''C''" by auto
  have "sum_cfu (filter (\<lambda>p. table p = ''B'' \<or> table p = ''C'') np) < snd (read_limits rs)"
    using assms(3) by (simp add: sum_cfu_BC minSumBC_aggregate_minimum)
  with tb have "attempt1 (fst (read_limits rs)) (snd (read_limits rs)) np (tb # tbs) = Some tb"
    by auto
  then show ?thesis by (simp add: assign_table_def al)
qed

lemma rebalanceBuckets_loop:
  "rebalanceBuckets m =
     (case programs (rules m) (curriculum m) of
        None \<Rightarrow> Inl TypeError
      | Some rs \<Rightarrow>
          (case rebalance_loop m (fst (read_limits rs)) (snd (read_limits rs))
                  (free_exams_credits (common (rules m)))
                  (mandatory_entries (plan m)) (active_entries (plan m)) of
             Inl e \<Rightarrow> Inl e
           | Inr np \<Rightarrow> Inr (m\<lparr>plan := np\<rparr>)))"
  unfolding rebalanceBuckets_def mandatory_entries_def active_entries_def ..

text \<open>An active entry appended to the plan is placed after the pass over the others.\<close>

lemma rebalanceBuckets_snoc:
  assumes "rebalanceBuckets (m\<lparr>plan := ps\<rparr>) = Inr m0"
    and "programs (rules m) (curriculum m) = Some rs"
    and "table it \<noteq> ''Obbligatori''"
    and "allowed_of m it = Inr al"
  shows "rebalanceBuckets (m\<lparr>plan := ps @ [it]\<rparr>)
           = Inr (m0\<lparr>plan := plan m0 @
                    [it\<lparr>table := assign_table (fst (read_limits rs)) (snd (read_limits rs))
                                    (free_exams_credits (common (rules m))) (plan m0) al\<rparr>]\<rparr>)"
proof -
  from assms(1,2) obtain np where
    np: "rebalance_loop m (fst (read_limits rs)) (snd (read_limits rs))
           (free_exams_credits (common (rules m)))
           (mandatory_entries ps) (active_entries ps) = Inr np"
    and m0: "m0 = m\<lparr>plan := np\<rparr>"
    by (auto simp: rebalanceBuckets_loop split: sum.splits)
  have f: "mandatory_entries (ps @ [it]) = mandatory_entries ps"
          "active_entries (ps @ [it]) = active_entries ps @ [it]"
    using assms(3) by (simp_all add: mandatory_entries_def active_entries_def)
  show ?thesis
    using assms(2,4) np
    by (simp add: rebalanceBuckets_loop f rebalance_loop_append m0)
qed


text \<open>
  Claim C1. When \<open>rebalanceBuckets\<close> returns, the new plan is the mandatory entries followed
  by the greedy pass of the specification over the active entries in their existing order:
  each entry goes to the first of its allowed tables, in priority order, whose credits placed
  so far in this pass are below the minimum of the table, or that is B or C while the
  credits placed so far in B and C together are below the aggregate minimum; without such a
  table it goes to Facoltativi while the credits placed there are below the free-credit
  target, and to Fuori Piano otherwise. In particular an active entry whose allowed tables
  are among B and C, appended to a plan whose pass leaves the sum of B and C below the
  aggregate minimum, is placed in the first of its allowed tables, whatever the individual
  minimums of B and C. \<open>rebalanceBuckets\<close> returns whenever the curriculum has rules and every
  active entry is custom or has its exam in the catalogue.
\<close>

theorem rebalanceBuckets_greedy:
  "(rebalanceBuckets m = Inr m' \<and> programs (rules m) (curriculum m) = Some progRules \<longrightarrow>
      plan m' = mandatory_entries (plan m) @ greedy_pass m progRules [] (active_entries (plan m)))
   \<and> (rebalanceBuckets (m\<lparr>plan := ps\<rparr>) = Inr m0
       \<and> programs (rules m) (curriculum m) = Some progRules
       \<and> table it \<noteq> ''Obbligatori''
       \<and> allowed_tables m it \<noteq> [] \<and> set (allowed_tables m it) \<subseteq> {''B'', ''C''}
       \<and> credits_in (plan m0) ''B'' + credits_in (plan m0) ''C'' < aggregate_minimum progRules \<longrightarrow>
      rebalanceBuckets (m\<lparr>plan := ps @ [it]\<rparr>)
        = Inr (m0\<lparr>plan := plan m0 @ [it\<lparr>table := hd (allowed_tables m it)\<rparr>]\<rparr>))
   \<and> (programs (rules m) (curriculum m) = Some progRules
       \<and> (\<forall>p\<in>set (active_entries (plan m)). isCustom p \<or> lookup_exam m (examId p) \<noteq> None) \<longrightarrow>
      (\<exists>m'. rebalanceBuckets m = Inr m'))"
proof (intro conjI impI)
  assume h: "rebalanceBuckets m = Inr m' \<and> programs (rules m) (curriculum m) = Some progRules"
  then obtain np where
    np: "rebalance_loop m (fst (read_limits progRules)) (snd (read_limits progRules))
           (free_exams_credits (common (rules m)))
           (mandatory_entries (plan m) @ []) (active_entries (plan m)) = Inr np"
    and m': "plan m' = np"
    by (auto simp: rebalanceBuckets_loop split: sum.splits)
  have "\<forall>p\<in>set (mandatory_entries (plan m)). table p = ''Obbligatori''"
    by (simp add: mandatory_entries_def)
  from rebalance_loop_greedy_pass [OF this np] m'
  show "plan m' = mandatory_entries (plan m) @ greedy_pass m progRules [] (active_entries (plan m))"
    by simp
next
  assume h: "rebalanceBuckets (m\<lparr>plan := ps\<rparr>) = Inr m0
       \<and> programs (rules m) (curriculum m) = Some progRules
       \<and> table it \<noteq> ''Obbligatori''
       \<and> allowed_tables m it \<noteq> [] \<and> set (allowed_tables m it) \<subseteq> {''B'', ''C''}
       \<and> credits_in (plan m0) ''B'' + credits_in (plan m0) ''C'' < aggregate_minimum progRules"
  then have al: "allowed_of m it = Inr (allowed_tables m it)"
    by (simp add: allowed_tables_nonempty)
  have "assign_table (fst (read_limits progRules)) (snd (read_limits progRules))
          (free_exams_credits (common (rules m))) (plan m0) (allowed_tables m it)
        = hd (allowed_tables m it)"
    using h by (intro assign_table_aggregate) simp_all
  with rebalanceBuckets_snoc [OF _ _ _ al, of ps m0 progRules] h
  show "rebalanceBuckets (m\<lparr>plan := ps @ [it]\<rparr>)
        = Inr (m0\<lparr>plan := plan m0 @ [it\<lparr>table := hd (allowed_tables m it)\<rparr>]\<rparr>)"
    by simp
next
  assume h: "programs (rules m) (curriculum m) = Some progRules
       \<and> (\<forall>p\<in>set (active_entries (plan m)). isCustom p \<or> lookup_exam m (examId p) \<noteq> None)"
  then have "\<forall>p\<in>set (active_entries (plan m)). \<exists>al. allowed_of m p = Inr al"
    by (auto simp: allowed_of_def)
  from rebalance_loop_succeeds [OF this]
  obtain np where "rebalance_loop m (fst (read_limits progRules)) (snd (read_limits progRules))
           (free_exams_credits (common (rules m)))
           (mandatory_entries (plan m)) (active_entries (plan m)) = Inr np"
    by blast
  with h have "rebalanceBuckets m = Inr (m\<lparr>plan := np\<rparr>)"
    by (simp add: rebalanceBuckets_loop)
  then show "\<exists>m'. rebalanceBuckets m = Inr m'" by blast
qed

theorem rebalanceBuckets_greedy_witness:
  "greedy_pass (demo_pm f94_catalog ''2024/2025'' ''F94'' f94_plan) f94_rules []
       (active_entries f94_plan) = tl f94_balanced
   \<and> rebalanceBuckets (demo_pm f94_catalog ''2024/2025'' ''F94''
         (f94_plan @ [demo_item ''bc'' 6 ''Facoltativi'']))
     = Inr (demo_pm f94_catalog ''2024/2025'' ''F94'' (f94_balanced @ [demo_item ''bc'' 6 ''B'']))
   \<and> (\<exists>m'. rebalanceBuckets (demo_pm f94_catalog ''2024/2025'' ''F94'' f94_plan) = Inr m')"
proof (intro conjI)
  have run: "rebalanceBuckets (demo_pm f94_catalog ''2024/2025'' ''F94'' f94_plan)
     = Inr (demo_pm f94_catalog ''2024/2025'' ''F94'' f94_balanced)"
    by (simp add: model_eval demo_eval f94_eval js_eval)
  have prog: "programs (rules (demo_pm f94_catalog ''2024/2025'' ''F94'' f94_plan))
                (curriculum (demo_pm f94_catalog ''2024/2025'' ''F94'' f94_plan)) = Some f94_rules"
    by (simp add: demo_eval f94_eval)
  have pl: "plan (demo_pm f94_catalog ''2024/2025'' ''F94'' f94_plan) = f94_plan"
           "plan (demo_pm f94_catalog ''2024/2025'' ''F94'' f94_balanced) = f94_balanced"
    by (simp_all add: demo_eval)
  have upd: "(demo_pm f94_catalog ''2024/2025'' ''F94'' f94_plan)\<lparr>plan := x\<rparr>
               = demo_pm f94_catalog ''2024/2025'' ''F94'' x" for x
    by (simp add: demo_eval)
  have mand: "mandatory_entries f94_plan = [thesis_item]"
    by (simp add: mandatory_entries_def f94_eval demo_eval)
  from rebalanceBuckets_greedy
         [of "demo_pm f94_catalog ''2024/2025'' ''F94'' f94_plan"
             "demo_pm f94_catalog ''2024/2025'' ''F94'' f94_balanced" f94_rules]
       run prog
  have "f94_balanced = mandatory_entries f94_plan
          @ greedy_pass (demo_pm f94_catalog ''2024/2025'' ''F94'' f94_plan) f94_rules []
              (active_entries f94_plan)"
    by (simp add: pl)
  then show "greedy_pass (demo_pm f94_catalog ''2024/2025'' ''F94'' f94_plan) f94_rules []
       (active_entries f94_plan) = tl f94_balanced"
    by (simp add: mand f94_balanced_def)
  have al: "allowed_tables (demo_pm f94_catalog ''2024/2025'' ''F94'' f94_plan)
              (demo_item ''bc'' 6 ''Facoltativi'') = [''B'', ''C'']"
    by (simp add: allowed_tables_def model_eval demo_eval f94_eval js_eval)
  have cr: "credits_in f94_balanced ''B'' + credits_in f94_balanced ''C''
              < aggregate_minimum f94_rules"
    by (simp add: credits_in_def aggregate_minimum_def f94_eval demo_eval)
  have run': "rebalanceBuckets ((demo_pm f94_catalog ''2024/2025'' ''F94'' f94_plan)\<lparr>plan := f94_plan\<rparr>)
     = Inr (demo_pm f94_catalog ''2024/2025'' ''F94'' f94_balanced)"
    using run by (simp add: upd)
  have tb: "table (demo_item ''bc'' 6 ''Facoltativi'') \<noteq> ''Obbligatori''"
    by (simp add: demo_eval)
  from rebalanceBuckets_greedy
         [of "demo_pm f94_catalog ''2024/2025'' ''F94'' f94_plan" _ f94_rules f94_plan
             "demo_pm f94_catalog ''2024/2025'' ''F94'' f94_balanced"
             "demo_item ''bc'' 6 ''Facoltativi''"]
       run' prog tb al cr
  have "rebalanceBuckets ((demo_pm f94_catalog ''2024/2025'' ''F94'' f94_plan)
            \<lparr>plan := f94_plan @ [demo_item ''bc'' 6 ''Facoltativi'']\<rparr>)
        = Inr ((demo_pm f94_catalog ''2024/2025'' ''F94'' f94_balanced)
            \<lparr>plan := plan (demo_pm f94_catalog ''2024/2025'' ''F94'' f94_balanced)
                      @ [(demo_item ''bc'' 6 ''Facoltativi'')\<lparr>table := hd [''B'', ''C'']\<rparr>]\<rparr>)"
    by (simp add: pl)
  then show "rebalanceBuckets (demo_pm f94_catalog ''2024/2025'' ''F94''
         (f94_plan @ [demo_item ''bc'' 6 ''Facoltativi'']))
     = Inr (demo_pm f94_catalog ''2024/2025'' ''F94'' (f94_balanced @ [demo_item ''bc'' 6 ''B'']))"
    by (simp add: demo_eval)
  have known: "\<forall>p\<in>set (active_entries (plan (demo_pm f94_catalog ''2024/2025'' ''F94'' f94_plan))).
                 isCustom p
                 \<or> lookup_exam (demo_pm f94_catalog ''2024/2025'' ''F94'' f94_plan) (examId p) \<noteq> None"
    by (simp add: active_entries_def lookup_exam_def demo_eval f94_eval)
  from rebalanceBuckets_greedy
         [of "demo_pm f94_catalog ''2024/2025'' ''F94'' f94_plan" _ f94_rules]
       prog known
  show "\<exists>m'. rebalanceBuckets (demo_pm f94_catalog ''2024/2025'' ''F94'' f94_plan) = Inr m'"
    by blast
qed

section \<open>Claim C8: the reassignment does not read the tables of active entries\<close>

lemma map_eq_list_all2: "map f xs = map f ys \<longleftrightarrow> list_all2 (\<lambda>a b. f a = f b) xs ys"
proof -
  have "map f xs = map f ys \<longleftrightarrow> list_all2 (=) (map f xs) (map f ys)"
    by (simp add: list.rel_eq)
  then show ?thesis by (simp add: list_all2_map1 list_all2_map2)
qed

lemma same_but_table_split:
  "list_all2 same_but_table xs ys \<Longrightarrow>
   mandatory_entries xs = mandatory_entries ys
   \<and> list_all2 (\<lambda>a b. untabled a = untabled b) (active_entries xs) (active_entries ys)"
  by (induction xs ys rule: list_all2_induct)
     (auto simp: same_but_table_def mandatory_entries_def active_entries_def)

lemma rebalanceBuckets_same_but_table:
  assumes "list_all2 same_but_table (plan m1) (plan m2)" and "m2 = m1\<lparr>plan := plan m2\<rparr>"
  shows "rebalanceBuckets m1 = rebalanceBuckets m2"
proof -
  from same_but_table_split [OF assms(1)]
  have me: "mandatory_entries (plan m1) = mandatory_entries (plan m2)"
    and ae: "list_all2 (\<lambda>a b. untabled a = untabled b) (active_entries (plan m1))
               (active_entries (plan m2))"
    by simp_all
  have eq: "rules m2 = rules m1" "curriculum m2 = curriculum m1"
    by (subst assms(2), simp)+
  have loop: "rebalance_loop m2 lim sbc fr acc xs = rebalance_loop m1 lim sbc fr acc xs"
    for lim sbc fr acc xs
    by (subst assms(2)) simp
  have upd: "m2\<lparr>plan := x\<rparr> = m1\<lparr>plan := x\<rparr>" for x
    by (subst assms(2)) simp
  show ?thesis
    unfolding rebalanceBuckets_loop [of m1] rebalanceBuckets_loop [of m2] eq loop upd me
      rebalance_loop_untabled [OF ae] ..
qed

lemma new_item_active: "tt \<noteq> Some ''Obbligatori'' \<Longrightarrow> table (new_item m e tt) \<noteq> ''Obbligatori''"
  using getAllowedTables_not_special [of _ m e]
  by (cases "getAllowedTables m e") (auto simp: new_item_def default_table_def split: option.splits)

lemma new_item_untabled: "untabled (new_item m e tt) = untabled (new_item m e tt')"
  by (simp add: new_item_def untabled_def)

lemma rebalanceBuckets_idem:
  assumes "rebalanceBuckets m = Inr m'"
  shows "rebalanceBuckets m' = Inr m'"
proof -
  from rebalanceBuckets_shape [OF assms] obtain zs where
    zs: "plan m' = mandatory_entries (plan m) @ zs"
        "map untabled zs = map untabled (active_entries (plan m))"
        "\<forall>z\<in>set zs. table z \<noteq> ''Obbligatori''"
    by blast
  have m': "m' = m\<lparr>plan := plan m'\<rparr>" using assms by (rule rebalanceBuckets_frame)
  have me: "mandatory_entries (plan m') = mandatory_entries (plan m)"
    using zs(1,3) by (simp add: mandatory_entries_def)
  have ae: "active_entries (plan m') = zs"
    using zs(1,3) by (simp add: mandatory_entries_def active_entries_def)
  have la: "list_all2 (\<lambda>a b. untabled a = untabled b) zs (active_entries (plan m))"
    using zs(2) by (simp add: map_eq_list_all2)
  from assms obtain rs np where rs: "programs (rules m) (curriculum m) = Some rs"
    and np: "rebalance_loop m (fst (read_limits rs)) (snd (read_limits rs))
               (free_exams_credits (common (rules m)))
               (mandatory_entries (plan m)) (active_entries (plan m)) = Inr np"
    and pl: "plan m' = np"
    by (auto simp: rebalanceBuckets_loop split: option.splits sum.splits)
  have eq: "rules m' = rules m" "curriculum m' = curriculum m"
    by (subst m', simp)+
  have loop: "rebalance_loop m' lim sbc fr acc xs = rebalance_loop m lim sbc fr acc xs"
    for lim sbc fr acc xs
    by (subst m') simp
  have "rebalanceBuckets m' = Inr (m'\<lparr>plan := np\<rparr>)"
    unfolding rebalanceBuckets_loop [of m'] eq loop me ae rebalance_loop_untabled [OF la]
    using rs np by simp
  then show ?thesis using pl by simp
qed

text \<open>
  Claim C8. \<open>rebalanceBuckets\<close> never reads the table of an entry that is not mandatory:
  two managers that differ only in the tables of entries that are not mandatory in both give
  the same outcome. So the target table of \<open>addExam\<close>, unless it is Obbligatori, has no
  effect on the outcome of the call, and \<open>rebalanceBuckets\<close> is idempotent.
\<close>

theorem rebalanceBuckets_ignores_tables:
  "(list_all2 same_but_table (plan m1) (plan m2) \<and> m2 = m1\<lparr>plan := plan m2\<rparr> \<longrightarrow>
      rebalanceBuckets m1 = rebalanceBuckets m2)
   \<and> (tt1 \<noteq> Some ''Obbligatori'' \<and> tt2 \<noteq> Some ''Obbligatori'' \<longrightarrow>
      addExam m e tt1 = addExam m e tt2)
   \<and> (rebalanceBuckets m = Inr m' \<longrightarrow> rebalanceBuckets m' = Inr m')"
proof (intro conjI impI)
  assume "list_all2 same_but_table (plan m1) (plan m2) \<and> m2 = m1\<lparr>plan := plan m2\<rparr>"
  then show "rebalanceBuckets m1 = rebalanceBuckets m2"
    using rebalanceBuckets_same_but_table by blast
next
  assume tt: "tt1 \<noteq> Some ''Obbligatori'' \<and> tt2 \<noteq> Some ''Obbligatori''"
  have sb: "same_but_table (new_item m e tt1) (new_item m e tt2)"
    using tt new_item_active [of tt1 m e] new_item_active [of tt2 m e]
          new_item_untabled [of m e tt1 tt2]
    by (simp add: same_but_table_def)
  have refl: "list_all2 same_but_table (plan m) (plan m)"
    by (simp add: list_all2_same same_but_table_def)
  have "list_all2 same_but_table (plan m @ [new_item m e tt1]) (plan m @ [new_item m e tt2])"
    using refl sb by (simp add: list_all2_appendI)
  then have "rebalanceBuckets (m\<lparr>plan := plan m @ [new_item m e tt1]\<rparr>)
           = rebalanceBuckets (m\<lparr>plan := plan m @ [new_item m e tt2]\<rparr>)"
    by (intro rebalanceBuckets_same_but_table) simp_all
  then show "addExam m e tt1 = addExam m e tt2"
    by (simp add: addExam_def)
next
  assume "rebalanceBuckets m = Inr m'"
  then show "rebalanceBuckets m' = Inr m'" by (rule rebalanceBuckets_idem)
qed

theorem rebalanceBuckets_ignores_tables_witness:
  "rebalanceBuckets (demo_pm f94_catalog ''2024/2025'' ''F94''
       [demo_item ''b1'' 15 ''C'', thesis_item, demo_item ''b2'' 15 ''A'', demo_item ''c1'' 12 ''B''])
     = Inr (demo_pm f94_catalog ''2024/2025'' ''F94'' f94_balanced)
   \<and> addExam (demo_pm f94_catalog ''2024/2025'' ''F94'' f94_balanced)
         (demo_exam ''bc'' 6 ''C|B'' ''enabled'') (Some ''Fuori Piano'')
     = Inr (True, demo_pm f94_catalog ''2024/2025'' ''F94'' (f94_balanced @ [demo_item ''bc'' 6 ''B'']))
   \<and> rebalanceBuckets (demo_pm f94_catalog ''2024/2025'' ''F94'' f94_balanced)
     = Inr (demo_pm f94_catalog ''2024/2025'' ''F94'' f94_balanced)"
proof (intro conjI)
  have run: "rebalanceBuckets (demo_pm f94_catalog ''2024/2025'' ''F94'' f94_plan)
     = Inr (demo_pm f94_catalog ''2024/2025'' ''F94'' f94_balanced)"
    by (simp add: model_eval demo_eval f94_eval js_eval)
  have rel: "list_all2 same_but_table (plan (demo_pm f94_catalog ''2024/2025'' ''F94'' f94_plan))
     (plan (demo_pm f94_catalog ''2024/2025'' ''F94''
       [demo_item ''b1'' 15 ''C'', thesis_item, demo_item ''b2'' 15 ''A'', demo_item ''c1'' 12 ''B'']))"
    by (simp add: same_but_table_def untabled_def demo_eval f94_eval)
  have upd: "demo_pm f94_catalog ''2024/2025'' ''F94''
       [demo_item ''b1'' 15 ''C'', thesis_item, demo_item ''b2'' 15 ''A'', demo_item ''c1'' 12 ''B'']
     = (demo_pm f94_catalog ''2024/2025'' ''F94'' f94_plan)\<lparr>plan := plan (demo_pm f94_catalog ''2024/2025'' ''F94''
       [demo_item ''b1'' 15 ''C'', thesis_item, demo_item ''b2'' 15 ''A'', demo_item ''c1'' 12 ''B''])\<rparr>"
    by (simp add: demo_eval)
  from rebalanceBuckets_ignores_tables
         [of "demo_pm f94_catalog ''2024/2025'' ''F94'' f94_plan"
             "demo_pm f94_catalog ''2024/2025'' ''F94''
                [demo_item ''b1'' 15 ''C'', thesis_item, demo_item ''b2'' 15 ''A'',
                 demo_item ''c1'' 12 ''B'']"]
       rel upd run
  show "rebalanceBuckets (demo_pm f94_catalog ''2024/2025'' ''F94''
       [demo_item ''b1'' 15 ''C'', thesis_item, demo_item ''b2'' 15 ''A'', demo_item ''c1'' 12 ''B''])
     = Inr (demo_pm f94_catalog ''2024/2025'' ''F94'' f94_balanced)"
    by simp
  have add: "addExam (demo_pm f94_catalog ''2024/2025'' ''F94'' f94_balanced)
         (demo_exam ''bc'' 6 ''C|B'' ''enabled'') None
     = Inr (True, demo_pm f94_catalog ''2024/2025'' ''F94'' (f94_balanced @ [demo_item ''bc'' 6 ''B'']))"
    by (simp add: model_eval demo_eval f94_eval js_eval)
  from rebalanceBuckets_ignores_tables
         [of _ _ "Some ''Fuori Piano''" None
             "demo_pm f94_catalog ''2024/2025'' ''F94'' f94_balanced"
             "demo_exam ''bc'' 6 ''C|B'' ''enabled''"]
       add
  show "addExam (demo_pm f94_catalog ''2024/2025'' ''F94'' f94_balanced)
         (demo_exam ''bc'' 6 ''C|B'' ''enabled'') (Some ''Fuori Piano'')
     = Inr (True, demo_pm f94_catalog ''2024/2025'' ''F94'' (f94_balanced @ [demo_item ''bc'' 6 ''B'']))"
    by simp
  from rebalanceBuckets_ignores_tables
         [of _ _ _ _ "demo_pm f94_catalog ''2024/2025'' ''F94'' f94_plan" _
             "demo_pm f94_catalog ''2024/2025'' ''F94'' f94_balanced"]
       run
  show "rebalanceBuckets (demo_pm f94_catalog ''2024/2025'' ''F94'' f94_balanced)
     = Inr (demo_pm f94_catalog ''2024/2025'' ''F94'' f94_balanced)"
    by simp
qed

section \<open>Reachable managers\<close>

lemma allowed_of_year [simp]: "allowed_of (m\<lparr>year := y\<rparr>) it = allowed_of m it"
  by (simp add: allowed_of_def lookup_exam_def getAllowedTables_def split: option.splits)

lemma rebalance_loop_year [simp]:
  "rebalance_loop (m\<lparr>year := y\<rparr>) lim sbc fr acc xs = rebalance_loop m lim sbc fr acc xs"
  by (induction xs arbitrary: acc) (simp_all split: sum.splits)

lemma rebalanceBuckets_year:
  "rebalanceBuckets m = Inr m' \<Longrightarrow> rebalanceBuckets (m\<lparr>year := y\<rparr>) = Inr (m'\<lparr>year := y\<rparr>)"
  by (auto simp: rebalanceBuckets_loop split: option.splits sum.splits)

text \<open>Every reachable manager has an empty plan or a plan that the reassignment leaves as it
  is.\<close>

lemma reachable_balanced: "reachable m \<Longrightarrow> plan m = [] \<or> rebalanceBuckets m = Inr m"
proof (induction rule: reachable.induct)
  case (r_new exams rs tr)
  then show ?case by (simp add: new_PlanManager_def)
next
  case (r_setYear m y)
  then show ?case
    using rebalanceBuckets_year [of m m y] by (auto simp: setYear_def)
next
  case (r_setCurriculum m c m')
  then show ?case by (auto simp: setCurriculum_def migratePlan_def dest: rebalanceBuckets_idem)
next
  case (r_migratePlan m m')
  then show ?case by (auto simp: migratePlan_def dest: rebalanceBuckets_idem)
next
  case (r_addExam m e tt b m')
  then show ?case
    by (auto simp: addExam_def split: if_splits sum.splits dest: rebalanceBuckets_idem)
next
  case (r_addCustomExam m now nm c tb m')
  then show ?case by (auto simp: addCustomExam_def dest: rebalanceBuckets_idem)
next
  case (r_removeExam m pid m')
  then show ?case
    by (auto simp: removeExam_def split: if_splits dest: rebalanceBuckets_idem)
next
  case (r_moveExam m pid nt b m')
  then show ?case
    by (auto simp: moveExam_def rebalance_true_def
             split: option.splits if_splits sum.splits dest: rebalanceBuckets_idem)
next
  case (r_rebalanceBuckets m m')
  then show ?case by (auto dest: rebalanceBuckets_idem)
next
  case (r_validate m r m')
  then show ?case
    by (auto simp: validate_def split: sum.splits option.splits)
next
  case (r_reset m m')
  then show ?case by (auto simp: reset_def initDefaults_def dest: rebalanceBuckets_idem)
next
  case (r_initDefaults m m')
  then show ?case by (auto simp: initDefaults_def dest: rebalanceBuckets_idem)
qed

lemma balanced_tables_in_schema:
  assumes "rebalanceBuckets m = Inr m"
  shows "\<forall>p\<in>set (plan m). table p \<in> set (schema m)"
proof -
  from rebalanceBuckets_shape [OF assms] obtain zs where
    zs: "plan m = mandatory_entries (plan m) @ zs"
        "\<forall>z\<in>set zs. table z \<in> set (allowed_tables m z) \<union> {''Facoltativi'', ''Fuori Piano''}"
    by blast
  have a: "\<forall>p\<in>set (mandatory_entries (plan m)). table p \<in> set (schema m)"
    by (auto simp: mandatory_entries_def schema_def)
  have b: "\<forall>z\<in>set zs. table z \<in> set (schema m)"
  proof
    fix z assume "z \<in> set zs"
    with zs(2) have "table z \<in> set (allowed_tables m z) \<union> {''Facoltativi'', ''Fuori Piano''}"
      by blast
    moreover have "{''Facoltativi'', ''Fuori Piano''} \<subseteq> set (schema m)"
      by (simp add: schema_def)
    ultimately show "table z \<in> set (schema m)"
      using allowed_tables_in_schema [of m z] by blast
  qed
  have "set (plan m) = set (mandatory_entries (plan m)) \<union> set zs"
    by (subst zs(1)) simp
  with a b show ?thesis by blast
qed

lemma reachable_tables_in_schema:
  "reachable m \<Longrightarrow> \<forall>p\<in>set (plan m). table p \<in> set (schema m)"
  using reachable_balanced [of m] balanced_tables_in_schema [of m] by auto


text \<open>Two reachable managers of the examples.\<close>

lemma fba_start_run: "initDefaults fba_new = Inr fba_start"
  by (simp add: model_eval demo_eval fba_eval js_eval)

lemma fba_one_run: "addExam fba_start (demo_exam ''e1'' 6 ''1'' ''enabled'') None = Inr (True, fba_one)"
  by (simp add: model_eval demo_eval fba_eval js_eval)

lemma fba_one_reachable: "reachable fba_one"
proof -
  have "reachable fba_new" unfolding fba_new_def by (rule r_new)
  then have "reachable fba_start" using fba_start_run by (rule r_initDefaults)
  then show ?thesis using fba_one_run by (rule r_addExam)
qed

section \<open>Claim C9: moving an entry that is not in the plan\<close>


lemma untabled_mset_split:
  "mset (map untabled ps) = mset (map untabled (mandatory_entries ps)) + mset (map untabled (active_entries ps))"
  by (induction ps) (simp_all add: mandatory_entries_def active_entries_def)

lemma rebalanceBuckets_same_entries:
  assumes "rebalanceBuckets m = Inr m'"
  shows "mset (map untabled (plan m')) = mset (map untabled (plan m))"
    and "length (plan m') = length (plan m)"
proof -
  from rebalanceBuckets_shape [OF assms] obtain zs where
    zs: "plan m' = mandatory_entries (plan m) @ zs"
        "map untabled zs = map untabled (active_entries (plan m))"
    by blast
  have "mset (map untabled (plan m'))
          = mset (map untabled (mandatory_entries (plan m))) + mset (map untabled zs)"
    unfolding zs(1) by simp
  also have "\<dots> = mset (map untabled (mandatory_entries (plan m)))
                   + mset (map untabled (active_entries (plan m)))"
    unfolding zs(2) ..
  also have "\<dots> = mset (map untabled (plan m))"
    by (rule untabled_mset_split [symmetric])
  finally show ms: "mset (map untabled (plan m')) = mset (map untabled (plan m))" .
  from ms have "size (mset (map untabled (plan m'))) = size (mset (map untabled (plan m)))"
    by simp
  then show "length (plan m') = length (plan m)" by simp
qed




section \<open>Validation\<close>

lemma map_of_upd_table:
  "map_of (upd_table k f tbls) k' = (if k' = k then map_option f (map_of tbls k') else map_of tbls k')"
  by (induction tbls) (auto simp: upd_table_def)

lemma keys_upd_table: "fst ` set (upd_table k f tbls) = fst ` set tbls"
  by (induction tbls) (auto simp: upd_table_def)

lemma map_of_add_credits:
  "map_of (add_credits ps tbls) k
     = map_option (\<lambda>s. s\<lparr>current := current s + credits_in ps k\<rparr>) (map_of tbls k)"
  by (induction tbls) (auto simp: add_credits_def)

lemma map_of_const: "map_of (map (\<lambda>k. (k, z)) ks) k = (if k \<in> set ks then Some z else None)"
  by (induction ks) auto

lemma add_credits_Nil: "add_credits [] tbls = tbls"
  by (simp add: add_credits_def credits_in_def)

lemma add_credits_Cons:
  "add_credits ps (upd_table (table it) (\<lambda>s. s\<lparr>current := current s + cfu it\<rparr>) tbls)
     = add_credits (it # ps) tbls"
  by (induction tbls) (auto simp: add_credits_def upd_table_def credits_in_def)

lemma counted_credits_Cons:
  "counted_credits (it # ps)
     = (if table it \<noteq> ''Fuori Piano'' then cfu it + counted_credits ps else counted_credits ps)"
  by (simp add: counted_credits_def)

lemma sum_plan_Inr:
  "sum_plan ps tot tbls = Inr res \<Longrightarrow>
   res = (tot + counted_credits ps, add_credits ps tbls) \<and> (\<forall>p\<in>set ps. table p \<in> fst ` set tbls)"
proof (induction ps arbitrary: tot tbls)
  case Nil
  then show ?case by (auto simp: counted_credits_def add_credits_Nil)
next
  case (Cons it rest)
  from Cons.prems obtain st where st: "map_of tbls (table it) = Some st"
    by (cases "map_of tbls (table it)") auto
  then have key: "table it \<in> fst ` set tbls" by (metis map_of_eq_None_iff option.distinct(1))
  from Cons.prems st
  have "sum_plan rest (if table it \<noteq> ''Fuori Piano'' then tot + cfu it else tot)
          (upd_table (table it) (\<lambda>s. s\<lparr>current := current s + cfu it\<rparr>) tbls) = Inr res"
    by simp
  from Cons.IH [OF this] key show ?case
    by (auto simp: add_credits_Cons counted_credits_Cons keys_upd_table)
qed

lemma sum_plan_total:
  "\<forall>p\<in>set ps. table p \<in> fst ` set tbls \<Longrightarrow> \<exists>res. sum_plan ps tot tbls = Inr res"
proof (induction ps arbitrary: tot tbls)
  case Nil
  then show ?case by simp
next
  case (Cons it rest)
  then obtain st where st: "map_of tbls (table it) = Some st"
    by (cases "map_of tbls (table it)") (auto simp: map_of_eq_None_iff)
  have "\<forall>p\<in>set rest. table p \<in> fst ` set (upd_table (table it) (\<lambda>s. s\<lparr>current := current s + cfu it\<rparr>) tbls)"
    using Cons.prems by (simp add: keys_upd_table)
  from Cons.IH [OF this] st show ?case by simp
qed

lemma currents_ok_Some:
  "currents_ok m r \<Longrightarrow> map_of (tables r) k = Some st \<Longrightarrow>
   k \<in> set (schema m) \<and> current st = credits_in (plan m) k"
  unfolding currents_ok_def
  by (metis option.distinct(1) option.inject option.simps(9))

lemma currents_ok_None:
  "currents_ok m r \<Longrightarrow> map_of (tables r) k = None \<Longrightarrow> k \<notin> set (schema m)"
  unfolding currents_ok_def
  by (metis option.distinct(1) option.simps(8))

lemma currents_ok_in_schema:
  "currents_ok m r \<Longrightarrow> k \<in> set (schema m) \<Longrightarrow>
   \<exists>st. map_of (tables r) k = Some st \<and> current st = credits_in (plan m) k"
  unfolding currents_ok_def
  by (metis (no_types, lifting) map_option_eq_Some)

lemma currents_ok_check_bc: "currents_ok m r \<Longrightarrow> currents_ok m (check_bc m rl c r)"
  by (simp add: currents_ok_def check_bc_def fail_with_def)

lemma map_of_upd_table_current:
  "(\<forall>s. current (f s) = current s) \<Longrightarrow>
   map_option current (map_of (upd_table k f tbls) k') = map_option current (map_of tbls k')"
  by (cases "map_of tbls k'") (auto simp: map_of_upd_table)

lemma currents_ok_check_table: "currents_ok m r \<Longrightarrow> currents_ok m (check_table m rl st r)"
  by (simp add: currents_ok_def check_table_def fail_with_def map_of_upd_table_current)


lemma check_rules_Inr:
  assumes "currents_ok m r" and "map_option minimum (map_of (tables r) ''Obbligatori'') = Some mn"
    and "check_rules m rs r = Inr r'"
  shows "currents_ok m r' \<and> totalCredits r' = totalCredits r
         \<and> messages r' = messages r @ concat (map (rule_messages m) rs)
         \<and> (isValid r' \<longleftrightarrow> isValid r \<and> concat (map (rule_messages m) rs) = [])
         \<and> map_option minimum (map_of (tables r') ''Obbligatori'')
             = Some (foldl (\<lambda>mn rl. if source rl = ''Obbligatori'' then min_credits rl else mn) mn rs)"
  using assms
proof (induction rs arbitrary: r mn)
  case Nil
  then show ?case by simp
next
  case (Cons rl rest)
  show ?case
  proof (cases "source rl = ''BC''")
    case True
    from Cons.prems(3) True obtain b where b: "map_of (tables r) ''B'' = Some b"
      by (cases "map_of (tables r) ''B''") auto
    from Cons.prems(3) True b obtain c where c: "map_of (tables r) ''C'' = Some c"
      by (cases "map_of (tables r) ''C''") auto
    let ?r1 = "check_bc m rl (current b + current c) r"
    from Cons.prems(3) True b c have run: "check_rules m rest ?r1 = Inr r'" by simp
    have cb: "current b = credits_in (plan m) ''B''" "current c = credits_in (plan m) ''C''"
      using currents_ok_Some [OF Cons.prems(1)] b c by blast+
    have ok1: "currents_ok m ?r1" using Cons.prems(1) by (rule currents_ok_check_bc)
    have mn1: "map_option minimum (map_of (tables ?r1) ''Obbligatori'') = Some mn"
      using Cons.prems(2) by (simp add: check_bc_def fail_with_def)
    have msg1: "messages ?r1 = messages r @ rule_messages m rl"
               "isValid ?r1 \<longleftrightarrow> isValid r \<and> rule_messages m rl = []"
               "totalCredits ?r1 = totalCredits r"
      using True cb by (simp_all add: check_bc_def fail_with_def rule_messages_def)
    from Cons.IH [OF ok1 mn1 run] msg1 True show ?thesis by auto
  next
    case False
    show ?thesis
    proof (cases "map_of (tables r) (source rl)")
      case None
      from Cons.prems(3) False None have run: "check_rules m rest r = Inr r'" by simp
      have "source rl \<notin> set (schema m)" using Cons.prems(1) None by (rule currents_ok_None)
      then have msg: "rule_messages m rl = []" using False by (simp add: rule_messages_def)
      have "source rl \<noteq> ''Obbligatori''"
        using Cons.prems(2) None by auto
      with Cons.IH [OF Cons.prems(1,2) run] msg show ?thesis by simp
    next
      case (Some st)
      let ?r1 = "check_table m rl st r"
      from Cons.prems(3) False Some have run: "check_rules m rest ?r1 = Inr r'" by simp
      have st: "source rl \<in> set (schema m)" "current st = credits_in (plan m) (source rl)"
        using currents_ok_Some [OF Cons.prems(1) Some] by blast+
      have ok1: "currents_ok m ?r1" using Cons.prems(1) by (rule currents_ok_check_table)
      have mn1: "map_option minimum (map_of (tables ?r1) ''Obbligatori'')
                   = Some (if source rl = ''Obbligatori'' then min_credits rl else mn)"
        using Cons.prems(2) Some
        by (auto simp: check_table_def fail_with_def map_of_upd_table)
      have msg1: "messages ?r1 = messages r @ rule_messages m rl"
                 "isValid ?r1 \<longleftrightarrow> isValid r \<and> rule_messages m rl = []"
                 "totalCredits ?r1 = totalCredits r"
        using False st by (simp_all add: check_table_def fail_with_def rule_messages_def)
      from Cons.IH [OF ok1 mn1 run] msg1 show ?thesis by auto
    qed
  qed
qed

lemma check_rules_total:
  assumes "currents_ok m r"
    and "list_ex (\<lambda>rl. source rl = ''BC'') rs \<longrightarrow> curriculum m \<noteq> ''FBA''"
  shows "\<exists>r'. check_rules m rs r = Inr r'"
  using assms
proof (induction rs arbitrary: r)
  case Nil
  then show ?case by simp
next
  case (Cons rl rest)
  have rest: "list_ex (\<lambda>rl. source rl = ''BC'') rest \<longrightarrow> curriculum m \<noteq> ''FBA''"
    using Cons.prems(2) by simp
  show ?case
  proof (cases "source rl = ''BC''")
    case True
    then have "curriculum m \<noteq> ''FBA''" using Cons.prems(2) by simp
    then have "''B'' \<in> set (schema m)" "''C'' \<in> set (schema m)" by (simp_all add: schema_def)
    with currents_ok_in_schema [OF Cons.prems(1)]
    obtain b c where bc: "map_of (tables r) ''B'' = Some b" "map_of (tables r) ''C'' = Some c"
      by blast
    from Cons.IH [OF currents_ok_check_bc [OF Cons.prems(1)] rest, of rl "current b + current c"]
    show ?thesis using True bc by simp
  next
    case False
    show ?thesis
    proof (cases "map_of (tables r) (source rl)")
      case None
      with Cons.IH [OF Cons.prems(1) rest] False show ?thesis by simp
    next
      case (Some st)
      from Cons.IH [OF currents_ok_check_table [OF Cons.prems(1)] rest, of rl st]
      show ?thesis using False Some by simp
    qed
  qed
qed

lemma foldl_credits: "foldl (\<lambda>s e. s + credits e) a es = a + sum_list (map credits es)"
  by (induction es arbitrary: a) simp_all

lemma schema_has_Obbligatori: "''Obbligatori'' \<in> set (schema m)"
  by (simp add: schema_def)

lemma initial_report_ok:
  "currents_ok m (initial_report m tot
      (add_credits (plan m) (map (\<lambda>k. (k, \<lparr>current = 0, minimum = 0\<rparr>)) (schema m))))"
  unfolding currents_ok_def initial_report_def
  by (simp add: map_of_upd_table_current map_of_add_credits map_of_const)

lemma initial_report_mandatory:
  "map_option minimum (map_of (tables (initial_report m tot
      (add_credits (plan m) (map (\<lambda>k. (k, \<lparr>current = 0, minimum = 0\<rparr>)) (schema m))))) ''Obbligatori'')
   = Some (sum_list (map credits (mandatory_exams (common (rules m)))))"
  using schema_has_Obbligatori [of m]
  by (simp add: initial_report_def map_of_upd_table map_of_add_credits map_of_const foldl_credits)

lemma validate_unfold:
  "validate m = Inr (r, m') \<longleftrightarrow>
     (\<exists>tt rs r1 r2.
        sum_plan (plan m) 0 (map (\<lambda>k. (k, \<lparr>current = 0, minimum = 0\<rparr>)) (schema m)) = Inr tt
        \<and> programs (rules m) (curriculum m) = Some rs
        \<and> check_rules m rs (initial_report m (fst tt) (snd tt)) = Inr r1
        \<and> check_mandatory m r1 = Inr r2 \<and> r = check_total m r2 \<and> m' = m)"
  unfolding validate_def by (auto split: sum.splits option.splits)

lemma validate_Inr:
  assumes "validate m = Inr (r, m')" and "programs (rules m) (curriculum m) = Some rs"
  shows "m' = m \<and> totalCredits r = counted_credits (plan m) \<and> currents_ok m r
         \<and> messages r = expected_messages m rs
         \<and> (isValid r \<longleftrightarrow> expected_messages m rs = [])"
proof -
  let ?init = "map (\<lambda>k. (k, \<lparr>current = 0, minimum = 0\<rparr>)) (schema m)"
  let ?r0 = "initial_report m (counted_credits (plan m)) (add_credits (plan m) ?init)"
  from assms(1) obtain tt rs' r1 r2 where
    tt: "sum_plan (plan m) 0 ?init = Inr tt"
    and rs': "programs (rules m) (curriculum m) = Some rs'"
    and r1': "check_rules m rs' (initial_report m (fst tt) (snd tt)) = Inr r1"
    and r2: "check_mandatory m r1 = Inr r2"
    and res: "r = check_total m r2" "m' = m"
    unfolding validate_unfold by blast
  from sum_plan_Inr [OF tt] have tt_eq: "tt = (counted_credits (plan m), add_credits (plan m) ?init)"
    by simp
  from rs' assms(2) have "rs' = rs" by simp
  with r1' have r1: "check_rules m rs ?r0 = Inr r1" unfolding tt_eq by simp
  have r0: "totalCredits ?r0 = counted_credits (plan m)" "messages ?r0 = []" "isValid ?r0"
    by (simp_all add: initial_report_def)
  from check_rules_Inr [OF initial_report_ok initial_report_mandatory r1] r0
  have p1: "currents_ok m r1" "totalCredits r1 = counted_credits (plan m)"
    "messages r1 = concat (map (rule_messages m) rs)"
    "isValid r1 \<longleftrightarrow> concat (map (rule_messages m) rs) = []"
    "map_option minimum (map_of (tables r1) ''Obbligatori'') = Some (mandatory_minimum m rs)"
    by (simp_all add: mandatory_minimum_def)
  from currents_ok_in_schema [OF p1(1) schema_has_Obbligatori]
  obtain st where st: "map_of (tables r1) ''Obbligatori'' = Some st"
    "current st = credits_in (plan m) ''Obbligatori''"
    by blast
  with p1(5) have mn: "minimum st = mandatory_minimum m rs" by simp
  from r2 st mn have r2_eq:
    "r2 = (if credits_in (plan m) ''Obbligatori'' < mandatory_minimum m rs
           then fail_with (t m ''mandatory_incomplete'' []) r1 else r1)"
    by (simp add: check_mandatory_def)
  have p2: "currents_ok m r2" "totalCredits r2 = counted_credits (plan m)"
    "messages r2 = concat (map (rule_messages m) rs) @ mandatory_messages m rs"
    "isValid r2 \<longleftrightarrow> concat (map (rule_messages m) rs) = [] \<and> mandatory_messages m rs = []"
    using p1 by (simp_all add: r2_eq fail_with_def mandatory_messages_def currents_ok_def)
  have p3: "currents_ok m r" "totalCredits r = counted_credits (plan m)"
    "messages r = expected_messages m rs"
    "isValid r \<longleftrightarrow> expected_messages m rs = []"
    using p2
    by (simp_all add: res check_total_def fail_with_def total_messages_def expected_messages_def
                      currents_ok_def)
  with res(2) show ?thesis by blast
qed

lemma validate_total:
  assumes "\<forall>p\<in>set (plan m). table p \<in> set (schema m)" and "rules_fit m rs"
  shows "\<exists>r. validate m = Inr (r, m)"
proof -
  let ?init = "map (\<lambda>k. (k, \<lparr>current = 0, minimum = 0\<rparr>)) (schema m)"
  have keys: "fst ` set ?init = set (schema m)" by force
  with assms(1) have "\<forall>p\<in>set (plan m). table p \<in> fst ` set ?init" by simp
  from sum_plan_total [OF this] obtain tt where tt: "sum_plan (plan m) 0 ?init = Inr tt"
    by blast
  from sum_plan_Inr [OF tt] have tt_eq: "tt = (counted_credits (plan m), add_credits (plan m) ?init)"
    by simp
  let ?r0 = "initial_report m (counted_credits (plan m)) (add_credits (plan m) ?init)"
  from assms(2) have prog: "programs (rules m) (curriculum m) = Some rs"
    and bc: "list_ex (\<lambda>rl. source rl = ''BC'') rs \<longrightarrow> curriculum m \<noteq> ''FBA''"
    by (simp_all add: rules_fit_def)
  from check_rules_total [OF initial_report_ok bc]
  obtain r1 where r1: "check_rules m rs ?r0 = Inr r1" by blast
  from check_rules_Inr [OF initial_report_ok initial_report_mandatory r1]
  have "currents_ok m r1" by simp
  from currents_ok_in_schema [OF this schema_has_Obbligatori]
  obtain st where "map_of (tables r1) ''Obbligatori'' = Some st" by blast
  then obtain r2 where r2: "check_mandatory m r1 = Inr r2"
    by (simp add: check_mandatory_def)
  have "validate m = Inr (check_total m r2, m)"
    unfolding validate_unfold using tt tt_eq prog r1 r2 by auto
  then show ?thesis by blast
qed

section \<open>Claims C3 and C10: the report of validate\<close>

text \<open>
  The part of claim C3 that holds. On every manager that returning calls reach and whose
  rules fit (the active curriculum has a rule list, and the aggregate rule \<open>BC\<close> is listed
  only for a curriculum other than FBA) \<open>validate\<close> returns a report. Whenever it returns,
  \<open>totalCredits\<close> is the sum of the credits of the entries outside Fuori Piano, every table
  of the schema (Fuori Piano too) shows the credits of its entries, the messages are those of
  all failed checks in order (the rules of the curriculum, then the mandatory minimum, then
  the total), and \<open>isValid\<close> holds iff no check failed.
\<close>

lemma validate_report_when_rules_fit:
  "(reachable m \<and> rules_fit m progRules \<longrightarrow> (\<exists>r. validate m = Inr (r, m)))
   \<and> (validate m = Inr (r, m') \<and> programs (rules m) (curriculum m) = Some progRules \<longrightarrow>
        totalCredits r = counted_credits (plan m)
        \<and> (\<forall>k\<in>set (schema m).
              map_option current (map_of (tables r) k) = Some (credits_in (plan m) k))
        \<and> messages r = expected_messages m progRules
        \<and> (isValid r \<longleftrightarrow> expected_messages m progRules = []))"
proof (intro conjI impI)
  assume "reachable m \<and> rules_fit m progRules"
  then show "\<exists>r. validate m = Inr (r, m)"
    using reachable_tables_in_schema validate_total by blast
next
  assume h: "validate m = Inr (r, m') \<and> programs (rules m) (curriculum m) = Some progRules"
  then have v: "validate m = Inr (r, m')" and p: "programs (rules m) (curriculum m) = Some progRules"
    by simp_all
  note res = validate_Inr [OF v p]
  from res show "totalCredits r = counted_credits (plan m)" by simp
  from res show "messages r = expected_messages m progRules" by simp
  from res show "isValid r \<longleftrightarrow> expected_messages m progRules = []" by simp
  from res have "currents_ok m r" by simp
  then show "\<forall>k\<in>set (schema m).
              map_option current (map_of (tables r) k) = Some (credits_in (plan m) k)"
    by (simp add: currents_ok_def)
qed

lemma validate_report_example:
  "\<exists>r. validate fba_one = Inr (r, fba_one) \<and> totalCredits r = 18 \<and> \<not> isValid r
        \<and> messages r = [''table_missing_cfu'', ''table_missing_cfu'', ''total_cfu_status'']
        \<and> map_option current (map_of (tables r) ''1'') = Some 6"
proof -
  have fit: "rules_fit fba_one fba_rules"
    by (simp add: rules_fit_def fba_eval demo_eval)
  have prog: "programs (rules fba_one) (curriculum fba_one) = Some fba_rules"
    by (simp add: fba_eval demo_eval)
  from validate_report_when_rules_fit [of fba_one fba_rules] fba_one_reachable fit
  obtain r where r: "validate fba_one = Inr (r, fba_one)" by blast
  have cc: "counted_credits (plan fba_one) = 18"
    by (simp add: counted_credits_def fba_eval demo_eval)
  have em: "expected_messages fba_one fba_rules
              = [''table_missing_cfu'', ''table_missing_cfu'', ''total_cfu_status'']"
    by (simp add: expected_messages_def rule_messages_def mandatory_messages_def
                  mandatory_minimum_def total_messages_def counted_credits_def credits_in_def
                  schema_def fba_eval demo_eval)
  have c1: "credits_in (plan fba_one) ''1'' = 6"
    by (simp add: credits_in_def fba_eval demo_eval)
  have s1: "''1'' \<in> set (schema fba_one)"
    by (simp add: schema_def fba_eval demo_eval)
  from validate_report_when_rules_fit [of fba_one fba_rules r fba_one] r prog
  have "totalCredits r = counted_credits (plan fba_one)"
    "\<forall>k\<in>set (schema fba_one).
        map_option current (map_of (tables r) k) = Some (credits_in (plan fba_one) k)"
    "messages r = expected_messages fba_one fba_rules"
    "isValid r \<longleftrightarrow> expected_messages fba_one fba_rules = []"
    by blast+
  with cc em c1 s1 r show ?thesis by auto
qed

text \<open>
  Claim C3. The claim says that \<open>validate\<close> never throws on a reachable plan. The loop over
  the rules guards the branch of a table with \<open>if (report.tables[t])\<close>, but the branch of the
  aggregate rule reads \<open>report.tables["B"].current\<close> without a guard: with rules that list
  the rule \<open>BC\<close> for FBA, whose schema has no table B, \<open>validate\<close> throws a \<open>TypeError\<close> on
  the fresh manager with its empty plan.
\<close>

theorem validate_throws_on_aggregate_rule_under_FBA:
  "reachable (new_PlanManager [] fba_bc_rules None)
   \<and> validate (new_PlanManager [] fba_bc_rules None) = Inl TypeError"
proof
  show "reachable (new_PlanManager [] fba_bc_rules None)" by (rule r_new)
  show "validate (new_PlanManager [] fba_bc_rules None) = Inl TypeError"
    by (simp add: model_eval demo_eval fba_eval)
qed

text \<open>
  Claim C10. \<open>validate\<close> is read-only: the manager it leaves is the manager it was called
  on, with the same plan, year and curriculum; it does not reassign buckets, even on a plan
  that \<open>rebalanceBuckets\<close> would change.
\<close>

theorem validate_read_only:
  "validate m = Inr (r, m') \<longrightarrow>
     m' = m \<and> plan m' = plan m \<and> year m' = year m \<and> curriculum m' = curriculum m"
  unfolding validate_unfold by auto

theorem validate_read_only_witness:
  "\<exists>r m'. validate (demo_pm fba_catalog ''2025/2026'' ''FBA'' [demo_item ''e1'' 6 ''Fuori Piano''])
             = Inr (r, m')
     \<and> plan m' = [demo_item ''e1'' 6 ''Fuori Piano'']
     \<and> rebalanceBuckets (demo_pm fba_catalog ''2025/2026'' ''FBA'' [demo_item ''e1'' 6 ''Fuori Piano''])
         = Inr (demo_pm fba_catalog ''2025/2026'' ''FBA'' [demo_item ''e1'' 6 ''1''])"
proof -
  let ?m = "demo_pm fba_catalog ''2025/2026'' ''FBA'' [demo_item ''e1'' 6 ''Fuori Piano'']"
  have tabs: "\<forall>p\<in>set (plan ?m). table p \<in> set (schema ?m)"
    by (simp add: schema_def demo_eval)
  have fit: "rules_fit ?m fba_rules"
    by (simp add: rules_fit_def fba_eval demo_eval)
  from validate_total [OF tabs fit] obtain r where r: "validate ?m = Inr (r, ?m)" by blast
  from validate_read_only [of ?m r ?m] r have "plan ?m = plan ?m" by blast
  have pl: "plan ?m = [demo_item ''e1'' 6 ''Fuori Piano'']" by (simp add: demo_eval)
  have rb: "rebalanceBuckets ?m = Inr (demo_pm fba_catalog ''2025/2026'' ''FBA'' [demo_item ''e1'' 6 ''1''])"
    by (simp add: model_eval demo_eval fba_eval js_eval)
  from validate_read_only [of ?m r ?m] r pl rb show ?thesis by blast
qed

section \<open>Claim C6: adding an exam twice\<close>

lemma refs_to_append: "refs_to i (xs @ ys) = refs_to i xs + refs_to i ys"
  by (simp add: refs_to_def)

lemma refs_to_untabled: "refs_to i ps = length (filter (\<lambda>u. examId u = Some i) (map untabled ps))"
  by (induction ps) (simp_all add: refs_to_def untabled_def)

lemma refs_to_mset:
  "mset (map untabled ps) = mset (map untabled qs) \<Longrightarrow> refs_to i ps = refs_to i qs"
proof -
  assume h: "mset (map untabled ps) = mset (map untabled qs)"
  have "length (filter P xs) = size (filter_mset P (mset xs))" for P and xs :: "item list"
    by (metis mset_filter size_mset)
  then show ?thesis using h by (simp add: refs_to_untabled)
qed

lemma refs_to_rebalance: "rebalanceBuckets m = Inr m' \<Longrightarrow> refs_to i (plan m') = refs_to i (plan m)"
  by (rule refs_to_mset) (rule rebalanceBuckets_same_entries)

lemma refs_to_filter: "refs_to i (filter Q ps) \<le> refs_to i ps"
  by (induction ps) (simp_all add: refs_to_def)

lemma refs_to_set_table_first: "refs_to i (set_table_first pid nt ps) = refs_to i ps"
  by (induction ps) (simp_all add: refs_to_def)

lemma refs_to_migrate_loop: "refs_to i (migrate_loop m acc xs) \<le> refs_to i acc + refs_to i xs"
proof (induction xs arbitrary: acc)
  case Nil
  then show ?case by simp
next
  case (Cons it rest)
  have step: "refs_to i (acc @ [it\<lparr>table := tb\<rparr>]) = refs_to i acc + refs_to i [it]" for tb
    by (simp add: refs_to_def)
  have step': "refs_to i (acc @ [it]) = refs_to i acc + refs_to i [it]"
    by (simp add: refs_to_def)
  have cons: "refs_to i (it # rest) = refs_to i [it] + refs_to i rest"
    by (simp add: refs_to_def)
  show ?case
    using Cons.IH [of "acc @ [it]"] Cons.IH [of acc]
          Cons.IH [of "acc @ [it\<lparr>table := ''Facoltativi''\<rparr>]"]
          Cons.IH [of "acc @ [it\<lparr>table := hd (getAllowedTables m (the (lookup_exam m (examId it))))\<rparr>]"]
    by (auto simp: step step' cons split: option.splits list.splits)
qed

lemma refs_to_mandatory_items: "refs_to i (map mandatory_item es) = 0"
  by (induction es) (simp_all add: refs_to_def mandatory_item_def)

lemma refs_to_zero: "\<not> list_ex (\<lambda>p. examId p = Some i) ps \<Longrightarrow> refs_to i ps = 0"
  by (induction ps) (simp_all add: refs_to_def)

lemma refs_to_pos: "list_ex (\<lambda>p. examId p = Some i) ps \<Longrightarrow> 1 \<le> refs_to i ps"
  by (induction ps) (auto simp: refs_to_def)

lemma refs_to_new_item: "refs_to i [new_item m e tt] = (if i = exam_id e then 1 else 0)"
  by (auto simp: refs_to_def new_item_def)

text \<open>No reachable plan has two entries for one exam id.\<close>

lemma reachable_refs: "reachable m \<Longrightarrow> refs_to i (plan m) \<le> 1"
proof (induction rule: reachable.induct)
  case (r_new exams rs tr)
  then show ?case by (simp add: new_PlanManager_def refs_to_def)
next
  case (r_setYear m y)
  then show ?case by (simp add: setYear_def)
next
  case (r_setCurriculum m c m')
  from r_setCurriculum.hyps(2)
  have "refs_to i (plan m') = refs_to i (migrate_loop (m\<lparr>curriculum := c\<rparr>) [] (plan m))"
    by (auto simp: setCurriculum_def migratePlan_def dest: refs_to_rebalance)
  also have "\<dots> \<le> refs_to i [] + refs_to i (plan m)" by (rule refs_to_migrate_loop)
  finally show ?case using r_setCurriculum.IH by (simp add: refs_to_def)
next
  case (r_migratePlan m m')
  from r_migratePlan.hyps(2)
  have "refs_to i (plan m') = refs_to i (migrate_loop m [] (plan m))"
    by (auto simp: migratePlan_def dest: refs_to_rebalance)
  also have "\<dots> \<le> refs_to i [] + refs_to i (plan m)" by (rule refs_to_migrate_loop)
  finally show ?case using r_migratePlan.IH by (simp add: refs_to_def)
next
  case (r_addExam m e tt b m')
  show ?case
  proof (cases "list_ex (\<lambda>p. examId p = Some (exam_id e)) (plan m)")
    case True
    with r_addExam.hyps(2) have "m' = m" by (simp add: addExam_def)
    with r_addExam.IH show ?thesis by simp
  next
    case False
    with r_addExam.hyps(2)
    have rb: "rebalanceBuckets (m\<lparr>plan := plan m @ [new_item m e tt]\<rparr>) = Inr m'"
      by (auto simp: addExam_def split: sum.splits)
    have "refs_to i (plan m') = refs_to i (plan m) + refs_to i [new_item m e tt]"
      using refs_to_rebalance [OF rb, of i] by (simp add: refs_to_append)
    then show ?thesis
      using r_addExam.IH refs_to_zero [OF False] by (auto simp: refs_to_new_item)
  qed
next
  case (r_addCustomExam m now nm c tb m')
  from r_addCustomExam.hyps(2) have "refs_to i (plan m') = refs_to i (plan m)"
    by (auto simp: addCustomExam_def refs_to_append refs_to_def dest!: refs_to_rebalance [of _ _ i])
  then show ?case using r_addCustomExam.IH by simp
next
  case (r_removeExam m pid m')
  show ?case
  proof (cases "m' = m")
    case True
    then show ?thesis using r_removeExam.IH by simp
  next
    case False
    with r_removeExam.hyps(2)
    have rb: "rebalanceBuckets (m\<lparr>plan := filter (\<lambda>p. item_id p \<noteq> pid) (plan m)\<rparr>) = Inr m'"
      by (auto simp: removeExam_def split: if_splits)
    have "refs_to i (plan m') = refs_to i (filter (\<lambda>p. item_id p \<noteq> pid) (plan m))"
      using refs_to_rebalance [OF rb, of i] by simp
    also have "\<dots> \<le> refs_to i (plan m)" by (rule refs_to_filter)
    finally show ?thesis using r_removeExam.IH by simp
  qed
next
  case (r_moveExam m pid nt b m')
  show ?case
  proof (cases "m' = m")
    case True
    then show ?thesis using r_moveExam.IH by simp
  next
    case False
    with r_moveExam.hyps(2)
    have "rebalanceBuckets m = Inr m'
          \<or> rebalanceBuckets (m\<lparr>plan := set_table_first pid nt (plan m)\<rparr>) = Inr m'"
      by (auto simp: moveExam_def rebalance_true_def split: option.splits if_splits sum.splits)
    then have "refs_to i (plan m') = refs_to i (plan m)"
      by (auto dest!: refs_to_rebalance [of _ _ i] simp: refs_to_set_table_first)
    then show ?thesis using r_moveExam.IH by simp
  qed
next
  case (r_rebalanceBuckets m m')
  then show ?case by (simp add: refs_to_rebalance)
next
  case (r_validate m r m')
  then show ?case by (auto simp: validate_unfold)
next
  case (r_reset m m')
  from r_reset.hyps(2) have "refs_to i (plan m') = 0"
    by (auto simp: reset_def initDefaults_def refs_to_mandatory_items
             dest!: refs_to_rebalance [of _ _ i])
  then show ?case by simp
next
  case (r_initDefaults m m')
  from r_initDefaults.hyps(2) have "refs_to i (plan m') = refs_to i (plan m)"
    by (auto simp: initDefaults_def refs_to_append refs_to_mandatory_items
             dest!: refs_to_rebalance [of _ _ i])
  then show ?case using r_initDefaults.IH by simp
qed

text \<open>
  Claim C6. If an entry of the plan already references the id of the exam, \<open>addExam\<close>
  returns false and leaves the manager as it is. A call that returns true makes the plan one
  entry longer and leaves exactly one entry that references the exam, where there was none.
  After any call that returns, a second call with the same exam (and any target table)
  returns false and changes nothing; if at most one entry referenced the exam before, as on
  every reachable manager, exactly one entry references it then. On a reachable manager whose
  curriculum has rules, \<open>addExam\<close> of an exam of the catalogue returns.
\<close>

theorem addExam_duplicate:
  "(list_ex (\<lambda>p. examId p = Some (exam_id e)) (plan m) \<longrightarrow> addExam m e tt = Inr (False, m))
   \<and> (addExam m e tt = Inr (True, m') \<longrightarrow>
        length (plan m') = length (plan m) + 1
        \<and> refs_to (exam_id e) (plan m) = 0 \<and> refs_to (exam_id e) (plan m') = 1)
   \<and> (addExam m e tt = Inr (b, m1) \<longrightarrow> addExam m1 e tt' = Inr (False, m1))
   \<and> (refs_to (exam_id e) (plan m) \<le> 1 \<and> addExam m e tt = Inr (b, m1) \<longrightarrow>
        refs_to (exam_id e) (plan m1) = 1)
   \<and> (reachable m \<longrightarrow> refs_to (exam_id e) (plan m) \<le> 1)
   \<and> (reachable m \<and> programs (rules m) (curriculum m) \<noteq> None \<and> e \<in> set (allExams m) \<longrightarrow>
        (\<exists>b m1. addExam m e tt = Inr (b, m1)))"
proof -
  have dup: "addExam m e tt = Inr (False, m)"
    if "list_ex (\<lambda>p. examId p = Some (exam_id e)) (plan m)" for m tt
    using that by (simp add: addExam_def)
  have fresh: "length (plan m') = length (plan m) + 1
        \<and> refs_to (exam_id e) (plan m) = 0 \<and> refs_to (exam_id e) (plan m') = 1"
    if "addExam m e tt = Inr (True, m')" for m' tt
  proof -
    from that have no: "\<not> list_ex (\<lambda>p. examId p = Some (exam_id e)) (plan m)"
      and rb: "rebalanceBuckets (m\<lparr>plan := plan m @ [new_item m e tt]\<rparr>) = Inr m'"
      by (auto simp: addExam_def split: if_splits sum.splits)
    from rebalanceBuckets_same_entries(2) [OF rb]
    have "length (plan m') = length (plan m) + 1" by simp
    moreover have "refs_to (exam_id e) (plan m) = 0" using no by (rule refs_to_zero)
    moreover have "refs_to (exam_id e) (plan m') = 1"
      using refs_to_rebalance [OF rb, of "exam_id e"] refs_to_zero [OF no]
      by (simp add: refs_to_append refs_to_new_item)
    ultimately show ?thesis by blast
  qed
  have present: "list_ex (\<lambda>p. examId p = Some (exam_id e)) (plan m1)"
    if "addExam m e tt = Inr (b, m1)" for b m1
  proof (cases b)
    case True
    with that have "addExam m e tt = Inr (True, m1)" by simp
    then have "refs_to (exam_id e) (plan m1) = 1" using fresh by blast
    then show ?thesis
      using refs_to_zero [of "exam_id e" "plan m1"] by auto
  next
    case False
    with that show ?thesis by (auto simp: addExam_def split: if_splits sum.splits)
  qed
  have one: "refs_to (exam_id e) (plan m1) = 1"
    if "refs_to (exam_id e) (plan m) \<le> 1" "addExam m e tt = Inr (b, m1)" for b m1
  proof (cases b)
    case True
    with that(2) have "addExam m e tt = Inr (True, m1)" by simp
    then show ?thesis using fresh by blast
  next
    case False
    with that(2) have "m1 = m" by (auto simp: addExam_def split: if_splits sum.splits)
    moreover have "1 \<le> refs_to (exam_id e) (plan m1)"
      using present [OF that(2)] by (rule refs_to_pos)
    ultimately show ?thesis using that(1) by simp
  qed
  have inv: "refs_to (exam_id e) (plan m) \<le> 1" if "reachable m"
    using that by (rule reachable_refs)
  have returns: "\<exists>b m1. addExam m e tt = Inr (b, m1)"
    if "reachable m" "programs (rules m) (curriculum m) \<noteq> None" "e \<in> set (allExams m)"
  proof (cases "list_ex (\<lambda>p. examId p = Some (exam_id e)) (plan m)")
    case True
    then show ?thesis using dup by blast
  next
    case False
    from that(2) obtain rs where rs: "programs (rules m) (curriculum m) = Some rs" by blast
    have bal: "rebalanceBuckets (m\<lparr>plan := plan m\<rparr>) = Inr m"
      using reachable_balanced [OF that(1)] rs
      by (auto simp: rebalanceBuckets_loop mandatory_entries_def active_entries_def)
    from that(3) obtain e' where "lookup_exam m (Some (exam_id e)) = Some e'"
      by (cases "lookup_exam m (Some (exam_id e))") (auto simp: lookup_exam_def find_None_iff)
    then have al: "allowed_of m (new_item m e tt) = Inr (getAllowedTables m e')"
      by (simp add: allowed_of_def new_item_def)
    have "\<exists>m'. rebalanceBuckets (m\<lparr>plan := plan m @ [new_item m e tt]\<rparr>) = Inr m'"
    proof (cases "table (new_item m e tt) = ''Obbligatori''")
      case False
      from rebalanceBuckets_snoc [OF bal rs False al] show ?thesis by blast
    next
      case True
      have f: "mandatory_entries (plan m @ [new_item m e tt])
                 = mandatory_entries (plan m) @ [new_item m e tt]"
              "active_entries (plan m @ [new_item m e tt]) = active_entries (plan m)"
        using True by (simp_all add: mandatory_entries_def active_entries_def)
      from bal rs obtain np where
        "rebalance_loop m (fst (read_limits rs)) (snd (read_limits rs))
           (free_exams_credits (common (rules m)))
           (mandatory_entries (plan m)) (active_entries (plan m)) = Inr np"
        by (auto simp: rebalanceBuckets_loop split: sum.splits)
      from rebalance_loop_resolvable [OF this]
      have "\<forall>x\<in>set (active_entries (plan m)). \<exists>al. allowed_of m x = Inr al" .
      from rebalance_loop_succeeds [OF this]
      obtain r where "rebalance_loop m (fst (read_limits rs)) (snd (read_limits rs))
           (free_exams_credits (common (rules m)))
           (mandatory_entries (plan m) @ [new_item m e tt]) (active_entries (plan m)) = Inr r"
        by blast
      then have "rebalanceBuckets (m\<lparr>plan := plan m @ [new_item m e tt]\<rparr>)
                   = Inr (m\<lparr>plan := r\<rparr>)"
        using rs by (simp add: rebalanceBuckets_loop f)
      then show ?thesis by blast
    qed
    then show ?thesis using False by (auto simp: addExam_def)
  qed
  show ?thesis
    using dup fresh present one inv returns by (intro conjI impI) blast+
qed

theorem addExam_duplicate_witness:
  "addExam fba_one (demo_exam ''e1'' 6 ''1'' ''enabled'') (Some ''2'') = Inr (False, fba_one)
   \<and> refs_to ''e1'' (plan fba_one) = 1
   \<and> length (plan fba_one) = length (plan fba_start) + 1
   \<and> (\<exists>b m1. addExam fba_one (demo_exam ''e2'' 6 ''1|2'' ''enabled'') None = Inr (b, m1))"
proof -
  have st: "reachable fba_start"
    using r_initDefaults [OF r_new fba_start_run [unfolded fba_new_def]] .
  have id: "exam_id (demo_exam ''e1'' 6 ''1'' ''enabled'') = ''e1''"
    by (simp add: demo_eval)
  have pr: "programs (rules fba_one) (curriculum fba_one) \<noteq> None"
    by (simp add: fba_eval demo_eval)
  have cat: "demo_exam ''e2'' 6 ''1|2'' ''enabled'' \<in> set (allExams fba_one)"
    by (simp add: fba_eval demo_eval)
  have le: "refs_to (exam_id (demo_exam ''e1'' 6 ''1'' ''enabled'')) (plan fba_start) \<le> 1"
    using addExam_duplicate [of "demo_exam ''e1'' 6 ''1'' ''enabled''" fba_start] st by blast
  from addExam_duplicate
         [of "demo_exam ''e1'' 6 ''1'' ''enabled''" fba_start None fba_one True fba_one "Some ''2''"]
       fba_one_run le id
  have a: "addExam fba_one (demo_exam ''e1'' 6 ''1'' ''enabled'') (Some ''2'') = Inr (False, fba_one)"
    and b: "refs_to ''e1'' (plan fba_one) = 1"
    and c: "length (plan fba_one) = length (plan fba_start) + 1"
    by simp_all
  from addExam_duplicate
         [of "demo_exam ''e2'' 6 ''1|2'' ''enabled''" fba_one None]
       fba_one_reachable pr cat
  have d: "\<exists>b m1. addExam fba_one (demo_exam ''e2'' 6 ''1|2'' ''enabled'') None = Inr (b, m1)"
    by blast
  from a b c d show ?thesis by blast
qed

section \<open>Claim C2: the mandatory entries\<close>

lemma find_first_append:
  "find P (xs @ ys) = (case find P xs of None \<Rightarrow> find P ys | Some x \<Rightarrow> Some x)"
  by (induction xs) simp_all

lemma mandatory_entries_append:
  "mandatory_entries (xs @ ys) = mandatory_entries xs @ mandatory_entries ys"
  by (simp add: mandatory_entries_def)

lemma mandatory_migrate_loop:
  "mandatory_entries (migrate_loop m acc xs) = mandatory_entries acc @ mandatory_entries xs"
proof (induction xs arbitrary: acc)
  case Nil
  then show ?case by (simp add: mandatory_entries_def)
next
  case (Cons it rest)
  show ?case
  proof (cases "table it = ''Obbligatori'' \<or> isCustom it")
    case True
    then show ?thesis using Cons.IH [of "acc @ [it]"]
      by (auto simp: mandatory_entries_def)
  next
    case False
    show ?thesis
    proof (cases "lookup_exam m (examId it)")
      case None
      with False Cons.IH [of acc] show ?thesis by (simp add: mandatory_entries_def)
    next
      case (Some e)
      show ?thesis
      proof (cases "getAllowedTables m e")
        case Nil
        with False Some Cons.IH [of "acc @ [it\<lparr>table := ''Facoltativi''\<rparr>]"]
        show ?thesis by (simp add: mandatory_entries_def)
      next
        case (Cons a as)
        then have "a \<noteq> ''Obbligatori''"
          using getAllowedTables_not_special [of a m e] by simp
        with False Some Cons Cons.IH [of "acc @ [it\<lparr>table := a\<rparr>]"]
        show ?thesis by (simp add: mandatory_entries_def)
      qed
    qed
  qed
qed

lemma mandatory_rebalance:
  "rebalanceBuckets m = Inr m' \<Longrightarrow> mandatory_entries (plan m') = mandatory_entries (plan m)"
proof -
  assume "rebalanceBuckets m = Inr m'"
  from rebalanceBuckets_shape [OF this] obtain zs where
    "plan m' = mandatory_entries (plan m) @ zs" "\<forall>z\<in>set zs. table z \<noteq> ''Obbligatori''"
    by blast
  then show ?thesis by (simp add: mandatory_entries_def)
qed

text \<open>The part of claim C2 that holds: \<open>rebalanceBuckets\<close>, \<open>migratePlan\<close> and
  \<open>setCurriculum\<close> keep the mandatory entries as they are, and so does \<open>removeExam\<close> on a
  reachable manager, which is left unchanged when an entry with the id is mandatory.\<close>

lemma mandatory_entries_kept:
  "(rebalanceBuckets m = Inr m' \<longrightarrow> mandatory_entries (plan m') = mandatory_entries (plan m))
   \<and> (migratePlan m = Inr m' \<longrightarrow> mandatory_entries (plan m') = mandatory_entries (plan m))
   \<and> (setCurriculum m c = Inr m' \<longrightarrow> mandatory_entries (plan m') = mandatory_entries (plan m))
   \<and> (reachable m \<and> removeExam m pid = Inr m' \<longrightarrow>
        mandatory_entries (plan m') = mandatory_entries (plan m)
        \<and> ((\<exists>p\<in>set (plan m). item_id p = pid \<and> table p = ''Obbligatori'') \<longrightarrow> m' = m))"
proof -
  have 1: "mandatory_entries (plan m') = mandatory_entries (plan m)" if "rebalanceBuckets m = Inr m'"
    using that by (rule mandatory_rebalance)
  have 2: "mandatory_entries (plan m') = mandatory_entries (plan m)" if "migratePlan m = Inr m'"
    using that mandatory_migrate_loop [of m "[]" "plan m"]
    by (auto simp: migratePlan_def mandatory_entries_def dest!: mandatory_rebalance)
  have 3: "mandatory_entries (plan m') = mandatory_entries (plan m)" if "setCurriculum m c = Inr m'"
    using that mandatory_migrate_loop [of "m\<lparr>curriculum := c\<rparr>" "[]" "plan m"]
    by (auto simp: setCurriculum_def migratePlan_def mandatory_entries_def dest!: mandatory_rebalance)
  have 4: "mandatory_entries (plan m') = mandatory_entries (plan m)
        \<and> ((\<exists>p\<in>set (plan m). item_id p = pid \<and> table p = ''Obbligatori'') \<longrightarrow> m' = m)"
    if h: "reachable m \<and> removeExam m pid = Inr m'"
  proof -
    from h have first: "\<exists>zs. plan m = mandatory_entries (plan m) @ zs
                          \<and> (\<forall>z\<in>set zs. table z \<noteq> ''Obbligatori'')"
      using reachable_balanced [of m] rebalanceBuckets_shape [of m m]
      by (auto simp: mandatory_entries_def)
    then obtain zs where zs: "plan m = mandatory_entries (plan m) @ zs"
      "\<forall>z\<in>set zs. table z \<noteq> ''Obbligatori''" by blast
    have guard: "m' = m" if "\<exists>p\<in>set (plan m). item_id p = pid \<and> table p = ''Obbligatori''"
    proof -
      from that obtain p where p: "p \<in> set (mandatory_entries (plan m))" "item_id p = pid"
        by (auto simp: mandatory_entries_def)
      then obtain q where q: "find (\<lambda>p. item_id p = pid) (mandatory_entries (plan m)) = Some q"
        by (cases "find (\<lambda>p. item_id p = pid) (mandatory_entries (plan m))")
           (auto simp: find_None_iff)
      then have "q \<in> set (mandatory_entries (plan m))" by (auto simp: find_Some_iff)
      then have tq: "table q = ''Obbligatori''" by (simp add: mandatory_entries_def)
      have "find (\<lambda>p. item_id p = pid) (plan m) = Some q"
        by (subst zs(1)) (simp add: find_first_append q)
      with h tq show ?thesis by (simp add: removeExam_def)
    qed
    have kept: "mandatory_entries (plan m') = mandatory_entries (plan m)"
    proof (cases "\<exists>p\<in>set (plan m). item_id p = pid \<and> table p = ''Obbligatori''")
      case True
      then show ?thesis using guard by simp
    next
      case False
      then have keep: "mandatory_entries (filter (\<lambda>p. item_id p \<noteq> pid) (plan m))
                         = mandatory_entries (plan m)"
        by (auto simp: mandatory_entries_def intro!: filter_cong)
      from h have "m' = m
          \<or> rebalanceBuckets (m\<lparr>plan := filter (\<lambda>p. item_id p \<noteq> pid) (plan m)\<rparr>) = Inr m'"
        by (auto simp: removeExam_def split: if_splits)
      then show ?thesis
        using keep by (auto dest!: mandatory_rebalance)
    qed
    show ?thesis using kept guard by blast
  qed
  show ?thesis using 1 2 3 4 by blast
qed

text \<open>
  Claim C2. The claim says that no operation removes a mandatory entry or changes its table.
  \<open>moveExam\<close> does: it has no guard for the table Obbligatori, as \<open>removeExam\<close> has. On
  the reachable manager that \<open>initDefaults\<close> leaves, \<open>moveExam\<close> moves the mandatory entry
  \<open>tesi-finale\<close> to Facoltativi and returns true; \<open>removeExam\<close> then removes it.
\<close>

theorem moveExam_moves_mandatory:
  "reachable fba_start \<and> plan fba_start = [thesis_item] \<and> table thesis_item = ''Obbligatori''
   \<and> moveExam fba_start ''tesi-finale'' ''Facoltativi''
       = Inr (True, fba_start\<lparr>plan := [thesis_item\<lparr>table := ''Facoltativi''\<rparr>]\<rparr>)
   \<and> removeExam (fba_start\<lparr>plan := [thesis_item\<lparr>table := ''Facoltativi''\<rparr>]\<rparr>) ''tesi-finale''
       = Inr (fba_start\<lparr>plan := []\<rparr>)"
proof (intro conjI)
  show "reachable fba_start"
    using r_initDefaults [OF r_new fba_start_run [unfolded fba_new_def]] .
  show "plan fba_start = [thesis_item]" by (simp add: fba_eval demo_eval)
  show "table thesis_item = ''Obbligatori''" by (simp add: thesis_item_def)
  show "moveExam fba_start ''tesi-finale'' ''Facoltativi''
       = Inr (True, fba_start\<lparr>plan := [thesis_item\<lparr>table := ''Facoltativi''\<rparr>]\<rparr>)"
    by (simp add: model_eval demo_eval fba_eval js_eval)
  show "removeExam (fba_start\<lparr>plan := [thesis_item\<lparr>table := ''Facoltativi''\<rparr>]\<rparr>) ''tesi-finale''
       = Inr (fba_start\<lparr>plan := []\<rparr>)"
    by (simp add: model_eval demo_eval fba_eval js_eval)
qed

end
